theory Spec2Isabelle
  imports Complex_Main
begin

section \<open>Numbers, vectors and quaternions\<close>

text \<open>
  The component \<^verbatim>\<open>BauCuaGame.tsx\<close> reads the orientation of three dice from the
  physics library and resolves each to a symbol. In this first model a JavaScript number is
  an exact \<^typ>\<open>real\<close>: the arithmetic is the arithmetic of the source without rounding,
  overflow to infinity or NaN. It carries the properties that depend only on how the six
  computed dot products compare, and it is the exact value that the double-precision model
  further down is measured against. The array reads of the source return
  \<^verbatim>\<open>undefined\<close> out of range; that is the value \<open>None\<close> here.
\<close>

record vec3 =
  vx :: real
  vy :: real
  vz :: real

record quaternion =
  qx :: real
  qy :: real
  qz :: real
  qw :: real

definition Vec3 :: "real \<Rightarrow> real \<Rightarrow> real \<Rightarrow> vec3" where
  "Vec3 a b c = \<lparr>vx = a, vy = b, vz = c\<rparr>"

definition Quat :: "real \<Rightarrow> real \<Rightarrow> real \<Rightarrow> real \<Rightarrow> quaternion" where
  "Quat a b c d = \<lparr>qx = a, qy = b, qz = c, qw = d\<rparr>"

text \<open>
  Modelled from the spec: the physics library (cannon-es) is a dependency, not under src/.
  The spec has each face direction transformed "into world space by applying the rotation"
  and then its "dot product" taken with world up. \<open>dot\<close> is the library's
  \<^verbatim>\<open>Vec3.dot\<close> and \<open>vmult\<close> its \<^verbatim>\<open>Quaternion.vmult\<close>: the product
  \<open>q v q\<^sup>*\<close>, with the intermediate \<open>q v\<close> in \<open>ix, iy, iz, iw\<close> as the library
  computes it.
\<close>

definition dot :: "vec3 \<Rightarrow> vec3 \<Rightarrow> real" where
  "dot v u = vx v * vx u + vy v * vy u + vz v * vz u"

definition vmult :: "quaternion \<Rightarrow> vec3 \<Rightarrow> vec3" where
  "vmult q v =
     (let ix = qw q * vx v + qy q * vz v - qz q * vy v;
          iy = qw q * vy v + qz q * vx v - qx q * vz v;
          iz = qw q * vz v + qx q * vy v - qy q * vx v;
          iw = - qx q * vx v - qy q * vy v - qz q * vz v
      in \<lparr>vx = ix * qw q + iw * - qx q + iy * - qz q - iz * - qy q,
          vy = iy * qw q + iw * - qy q + iz * - qx q - ix * - qz q,
          vz = iz * qw q + iw * - qz q + ix * - qy q - iy * - qx q\<rparr>)"

text \<open>
  Modelled from the spec: the library's \<^verbatim>\<open>Quaternion.mult\<close> (Hamilton product, the
  composition of two rotations), needed to say what a rotation about the world-up axis
  composed with an orientation is. \<open>scaleQuat\<close> multiplies the four components by a
  scalar.
\<close>

definition mult :: "quaternion \<Rightarrow> quaternion \<Rightarrow> quaternion" where
  "mult a b =
     \<lparr>qx = qx a * qw b + qw a * qx b + qy a * qz b - qz a * qy b,
      qy = qy a * qw b + qw a * qy b + qz a * qx b - qx a * qz b,
      qz = qz a * qw b + qw a * qz b + qx a * qy b - qy a * qx b,
      qw = qw a * qw b - qx a * qx b - qy a * qy b - qz a * qz b\<rparr>"

definition scaleQuat :: "real \<Rightarrow> quaternion \<Rightarrow> quaternion" where
  "scaleQuat c q = \<lparr>qx = c * qx q, qy = c * qy q, qz = c * qz q, qw = c * qw q\<rparr>"

definition unit_quat :: "quaternion \<Rightarrow> bool" where
  "unit_quat q \<longleftrightarrow> qx q * qx q + qy q * qy q + qz q * qz q + qw q * qw q = 1"


section \<open>The orientation resolver (openBowl, lines 204 to 228)\<close>

text \<open>
  \<^verbatim>\<open>
  const upVector = new CANNON.Vec3(0, 1, 0);
  const faces = [
    new CANNON.Vec3(1, 0, 0), new CANNON.Vec3(-1, 0, 0),
    new CANNON.Vec3(0, 1, 0), new CANNON.Vec3(0, -1, 0),
    new CANNON.Vec3(0, 0, 1), new CANNON.Vec3(0, 0, -1)
  ];
  const faceVectors = faces.map(v => body.quaternion.vmult(v));
  const dots = faceVectors.map(v => v.dot(upVector));
  let maxDotIndex = 0;
  for (let i = 1; i < dots.length; i++) {
    if (dots[i] > dots[maxDotIndex]) {
      maxDotIndex = i;
    }
  }
  const faceMap = [1, 6, 2, 5, 3, 4];
  results.push(faceMap[maxDotIndex]);
  \<close>
\<close>

definition upVector :: vec3 where
  "upVector = Vec3 0 1 0"

definition faces :: "vec3 list" where
  "faces = [Vec3 1 0 0, Vec3 (-1) 0 0,
            Vec3 0 1 0, Vec3 0 (-1) 0,
            Vec3 0 0 1, Vec3 0 0 (-1)]"

definition faceVectors :: "quaternion \<Rightarrow> vec3 list" where
  "faceVectors q = map (vmult q) faces"

definition dots :: "quaternion \<Rightarrow> real list" where
  "dots q = map (\<lambda>v. dot v upVector) (faceVectors q)"

text \<open>An array read: \<^verbatim>\<open>xs[i]\<close> is \<^verbatim>\<open>undefined\<close> when \<open>i\<close> is out of range.\<close>

definition elemAt :: "'a list \<Rightarrow> nat \<Rightarrow> 'a option" where
  "elemAt xs i = (if i < length xs then Some (xs ! i) else None)"

text \<open>The comparison \<^verbatim>\<open>a > b\<close>: false as soon as one side is \<^verbatim>\<open>undefined\<close>.\<close>

fun js_gt :: "real option \<Rightarrow> real option \<Rightarrow> bool" where
  "js_gt (Some a) (Some b) = (a > b)"
| "js_gt _ _ = False"

function maxDotLoop :: "real list \<Rightarrow> nat \<Rightarrow> nat \<Rightarrow> nat" where
  "maxDotLoop ds i maxDotIndex =
     (if i < length ds
      then maxDotLoop ds (i + 1) (if js_gt (elemAt ds i) (elemAt ds maxDotIndex) then i else maxDotIndex)
      else maxDotIndex)"
  by pat_completeness auto
termination
  by (relation "measure (\<lambda>(ds, i, m). length ds - i)") auto

definition maxDotIndex :: "quaternion \<Rightarrow> nat" where
  "maxDotIndex q = maxDotLoop (dots q) 1 0"

definition faceMap :: "int list" where
  "faceMap = [1, 6, 2, 5, 3, 4]"

text \<open>The value pushed for one die: \<^verbatim>\<open>faceMap[maxDotIndex]\<close>.\<close>

definition resolver :: "quaternion \<Rightarrow> int option" where
  "resolver q = elemAt faceMap (maxDotIndex q)"


section \<open>The component's state and its handlers\<close>

record body =
  position :: vec3
  velocity :: vec3
  angularVelocity :: vec3
  quaternion :: quaternion
  awake :: bool

datatype timer = SettleTimer | RevealTimer

datatype sound = ShakeSound | OpenSound

text \<open>
  The React state (\<open>isShaking\<close> to \<open>results\<close>), the refs the handlers read
  (\<open>worldReady\<close> for \<^verbatim>\<open>worldRef.current\<close>, \<open>synthReady\<close> for
  \<^verbatim>\<open>synthRef.current\<close>, \<open>diceBodies\<close> for \<^verbatim>\<open>diceBodiesRef.current\<close>), the
  callbacks handed to \<^verbatim>\<open>setTimeout\<close> with their delay in milliseconds, and the sounds
  triggered so far.
\<close>

record game =
  isShaking :: bool
  isReadyToOpen :: bool
  isBowlOpen :: bool
  isSoundOn :: bool
  results :: "int option list"
  worldReady :: bool
  synthReady :: bool
  diceBodies :: "body list"
  timers :: "(nat \<times> timer) list"
  played :: "sound list"

definition setupAudio :: "game \<Rightarrow> game" where
  "setupAudio s = (if \<not> synthReady s then s\<lparr>synthReady := True\<rparr> else s)"

definition playShakeSound :: "game \<Rightarrow> game" where
  "playShakeSound s =
     (if \<not> isSoundOn s \<or> \<not> synthReady s then s else s\<lparr>played := played s @ [ShakeSound]\<rparr>)"

definition playOpenSound :: "game \<Rightarrow> game" where
  "playOpenSound s =
     (if \<not> isSoundOn s \<or> \<not> synthReady s then s else s\<lparr>played := played s @ [OpenSound]\<rparr>)"

text \<open>
  \<^verbatim>\<open>
  diceBodiesRef.current.forEach(body => {
    body.position.set(Math.random() - 0.5, 2, Math.random() - 0.5);
    body.angularVelocity.set((Math.random() - 0.5) * 20, (Math.random() - 0.5) * 20,
                             (Math.random() - 0.5) * 20);
    body.velocity.set(0, -1, 0);
    body.wakeUp();
  });
  \<close>
  \<^verbatim>\<open>Math.random\<close> is the stream \<open>rnd\<close>: its \<open>k\<close>-th call returns \<open>rnd k\<close>.
\<close>

definition shakeBody :: "(nat \<Rightarrow> real) \<Rightarrow> nat \<Rightarrow> body \<Rightarrow> body" where
  "shakeBody rnd k b =
     b\<lparr>position := Vec3 (rnd k - 0.5) 2 (rnd (k + 1) - 0.5),
       angularVelocity := Vec3 ((rnd (k + 2) - 0.5) * 20) ((rnd (k + 3) - 0.5) * 20)
                               ((rnd (k + 4) - 0.5) * 20),
       velocity := Vec3 0 (-1) 0,
       awake := True\<rparr>"

fun shakeBodies :: "(nat \<Rightarrow> real) \<Rightarrow> nat \<Rightarrow> body list \<Rightarrow> body list" where
  "shakeBodies rnd k [] = []"
| "shakeBodies rnd k (b # bs) = shakeBody rnd k b # shakeBodies rnd (k + 5) bs"

text \<open>
  \<^verbatim>\<open>
  const handleShake = useCallback(async () => {
    if (isShaking || !worldRef.current) return;
    if (isBowlOpen) {
      // Reset game
      setIsBowlOpen(false);
      setIsReadyToOpen(false);
      setResults([]);
      return;
    }
    if (!synthRef.current && isSoundOn) {
      await Tone.start();
      setupAudio();
    }
    setIsShaking(true);
    setIsReadyToOpen(false);
    playShakeSound();
    diceBodiesRef.current.forEach(...);
    setTimeout(() => { setIsShaking(false); setIsReadyToOpen(true); }, 2000);
  }, ...);
  \<close>
  The handler is taken as one step: the \<^verbatim>\<open>await\<close> is not a point where another
  event is interleaved.
\<close>

definition handleShake :: "(nat \<Rightarrow> real) \<Rightarrow> game \<Rightarrow> game" where
  "handleShake rnd s =
     (if isShaking s \<or> \<not> worldReady s then s
      else if isBowlOpen s
      then s\<lparr>isBowlOpen := False, isReadyToOpen := False, results := []\<rparr>
      else
        let s1 = (if \<not> synthReady s \<and> isSoundOn s then setupAudio s else s);
            s2 = s1\<lparr>isShaking := True, isReadyToOpen := False\<rparr>;
            s3 = playShakeSound s2;
            s4 = s3\<lparr>diceBodies := shakeBodies rnd 0 (diceBodies s3)\<rparr>
        in s4\<lparr>timers := timers s4 @ [(2000, SettleTimer)]\<rparr>)"

text \<open>
  \<^verbatim>\<open>
  const openBowl = useCallback(() => {
    if (!isReadyToOpen || isBowlOpen) return;
    setIsBowlOpen(true);
    playOpenSound();
    setTimeout(() => { ... setResults(results); }, 500);
  }, ...);
  \<close>
\<close>

definition openBowl :: "game \<Rightarrow> game" where
  "openBowl s =
     (if \<not> isReadyToOpen s \<or> isBowlOpen s then s
      else
        let s1 = s\<lparr>isBowlOpen := True\<rparr>;
            s2 = playOpenSound s1
        in s2\<lparr>timers := timers s2 @ [(500, RevealTimer)]\<rparr>)"

definition handleMainButton :: "(nat \<Rightarrow> real) \<Rightarrow> game \<Rightarrow> game" where
  "handleMainButton rnd s =
     (if isShaking s then s
      else if \<not> isReadyToOpen s \<and> \<not> isBowlOpen s then handleShake rnd s
      else if isReadyToOpen s \<and> \<not> isBowlOpen s then openBowl s
      else if isBowlOpen s then handleShake rnd s
      else s)"

text \<open>The two callbacks handed to \<^verbatim>\<open>setTimeout\<close>, as they run when their timer fires.\<close>

fun timeout :: "timer \<Rightarrow> game \<Rightarrow> game" where
  "timeout SettleTimer s = s\<lparr>isShaking := False, isReadyToOpen := True\<rparr>"
| "timeout RevealTimer s = s\<lparr>results := map (\<lambda>b. resolver (quaternion b)) (diceBodies s)\<rparr>"

text \<open>
  The spec's game phase, read off the three flags in the order in which
  \<^verbatim>\<open>handleMainButton\<close> and \<^verbatim>\<open>getButtonText\<close> test them.
\<close>

datatype phase = Idle | Shaking | ReadyToOpen | Open

definition phase :: "game \<Rightarrow> phase" where
  "phase s =
     (if isShaking s then Shaking
      else if isBowlOpen s then Open
      else if isReadyToOpen s then ReadyToOpen
      else Idle)"


section \<open>The resolver in double-precision arithmetic\<close>

text \<open>
  The running code computes on IEEE-754 double-precision numbers. The properties that depend
  on rounding, underflow or overflow are stated on the model of this section, which repeats
  the resolver with every \<^verbatim>\<open>*\<close>, \<^verbatim>\<open>+\<close> and \<^verbatim>\<open>-\<close> rounded as the
  language does.

  A double is a finite number \<open>m 2\<^sup>e\<close> (\<open>Fin m e\<close>), an infinity or NaN. The sign of
  zero is not kept: the computation has no division, and \<^verbatim>\<open>>\<close> does not tell the two
  zeros apart. The type has a term \<open>Fin m e\<close> for any two integers, more than there are
  doubles; every operation rounds its result to a double, and what is proved below holds
  for all terms.
\<close>

datatype double = Fin int int | PInf | NInf | NaN

text \<open>The number of binary digits of a non-negative integer.\<close>

function bits :: "int \<Rightarrow> int" where
  "bits a = (if a \<le> 0 then 0 else 1 + bits (a div 2))"
  by pat_completeness auto
termination
  by (relation "measure nat") auto

text \<open>\<open>a / 2\<^sup>k\<close> rounded to the nearest integer, a tie going to the even one.\<close>

definition roundShift :: "int \<Rightarrow> nat \<Rightarrow> int" where
  "roundShift a k =
     (let qt = a div 2 ^ k; r = a mod 2 ^ k
      in if 2 ^ k < 2 * r \<or> (2 * r = 2 ^ k \<and> odd qt) then qt + 1 else qt)"

text \<open>
  The exact result \<open>m 2\<^sup>e\<close> of an operation rounded to the nearest double, ties to
  even. With \<open>b\<close> the number of digits of \<open>\<bar>m\<bar>\<close>, the rounding drops the low
  \<open>k\<close> digits that do not fit the 53-digit significand or lie below the smallest
  subnormal step \<open>2\<^sup>-\<^sup>1\<^sup>0\<^sup>7\<^sup>4\<close>; a rounded magnitude of \<open>2\<^sup>1\<^sup>0\<^sup>2\<^sup>4\<close> or
  more is an infinity.
\<close>

definition fl :: "int \<Rightarrow> int \<Rightarrow> double" where
  "fl m e =
     (let a = \<bar>m\<bar>;
          k = nat (max (bits a - 53) (- 1074 - e));
          a' = roundShift a k;
          e' = e + int k
      in if a' \<noteq> 0 \<and> 1024 < bits a' + e' then (if m < 0 then NInf else PInf)
         else Fin (sgn m * a') e')"

text \<open>
  The same rounding in stages, each intermediate value computed once; used to evaluate
  \<open>fl\<close> on concrete numbers.
\<close>

definition flPack :: "int \<Rightarrow> int \<Rightarrow> int \<Rightarrow> double" where
  "flPack m a' e' =
     (if a' \<noteq> 0 \<and> 1024 < bits a' + e' then (if m < 0 then NInf else PInf)
      else Fin (sgn m * a') e')"

definition flB :: "int \<Rightarrow> int \<Rightarrow> nat \<Rightarrow> double" where
  "flB m e k = flPack m (roundShift \<bar>m\<bar> k) (e + int k)"

definition flA :: "int \<Rightarrow> int \<Rightarrow> int \<Rightarrow> double" where
  "flA m e b = flB m e (nat (max (b - 53) (- 1074 - e)))"

definition rsB :: "int \<Rightarrow> int \<Rightarrow> int \<Rightarrow> int" where
  "rsB qt r p = (if p < 2 * r \<or> (2 * r = p \<and> odd qt) then qt + 1 else qt)"

definition rsA :: "int \<Rightarrow> int \<Rightarrow> int" where
  "rsA a p = rsB (a div p) (a mod p) p"

text \<open>
  Negation, product, sum, difference and \<^verbatim>\<open>>\<close> on doubles. A product or sum of two
  finite doubles is the exact result, rounded; the other cases are the IEEE-754 rules for
  infinities and NaN.
\<close>

fun dneg :: "double \<Rightarrow> double" where
  "dneg (Fin m e) = Fin (- m) e"
| "dneg PInf = NInf"
| "dneg NInf = PInf"
| "dneg NaN = NaN"

fun dmul :: "double \<Rightarrow> double \<Rightarrow> double" where
  "dmul (Fin m e) (Fin n f) = fl (m * n) (e + f)"
| "dmul NaN _ = NaN"
| "dmul _ NaN = NaN"
| "dmul (Fin m e) PInf = (if m = 0 then NaN else if 0 < m then PInf else NInf)"
| "dmul (Fin m e) NInf = (if m = 0 then NaN else if 0 < m then NInf else PInf)"
| "dmul PInf (Fin n f) = (if n = 0 then NaN else if 0 < n then PInf else NInf)"
| "dmul NInf (Fin n f) = (if n = 0 then NaN else if 0 < n then NInf else PInf)"
| "dmul PInf PInf = PInf"
| "dmul PInf NInf = NInf"
| "dmul NInf PInf = NInf"
| "dmul NInf NInf = PInf"

fun dadd :: "double \<Rightarrow> double \<Rightarrow> double" where
  "dadd (Fin m e) (Fin n f) =
     fl (m * 2 ^ nat (e - min e f) + n * 2 ^ nat (f - min e f)) (min e f)"
| "dadd NaN _ = NaN"
| "dadd _ NaN = NaN"
| "dadd PInf NInf = NaN"
| "dadd NInf PInf = NaN"
| "dadd PInf _ = PInf"
| "dadd _ PInf = PInf"
| "dadd NInf _ = NInf"
| "dadd _ NInf = NInf"

definition dsub :: "double \<Rightarrow> double \<Rightarrow> double" where
  "dsub a b = dadd a (dneg b)"

fun dgt :: "double \<Rightarrow> double \<Rightarrow> bool" where
  "dgt (Fin m e) (Fin n f) = (n * 2 ^ nat (f - min e f) < m * 2 ^ nat (e - min e f))"
| "dgt NaN _ = False"
| "dgt _ NaN = False"
| "dgt PInf PInf = False"
| "dgt PInf _ = True"
| "dgt _ PInf = False"
| "dgt NInf _ = False"
| "dgt _ NInf = True"

text \<open>
  Modelled from the spec: the library's \<^verbatim>\<open>Vec3.dot\<close>, \<^verbatim>\<open>Quaternion.vmult\<close>,
  \<^verbatim>\<open>Quaternion.mult\<close> and \<^verbatim>\<open>Quaternion.setFromAxisAngle\<close> (cannon-es, not under
  src/), with the operations in the order in which the library writes them, left to right.
  \<^verbatim>\<open>Math.sin\<close> and \<^verbatim>\<open>Math.cos\<close> are not fixed by IEEE-754: \<open>setFromAxisAngleD\<close>
  takes their two results, \<open>s\<close> for the sine and \<open>c\<close> for the cosine of half the angle.
  \<open>scaleQuatD\<close> multiplies the four components by a scalar.
\<close>

record vec3D =
  dvx :: double
  dvy :: double
  dvz :: double

record quaternionD =
  dqx :: double
  dqy :: double
  dqz :: double
  dqw :: double

definition Vec3D :: "double \<Rightarrow> double \<Rightarrow> double \<Rightarrow> vec3D" where
  "Vec3D a b c = \<lparr>dvx = a, dvy = b, dvz = c\<rparr>"

definition QuatD :: "double \<Rightarrow> double \<Rightarrow> double \<Rightarrow> double \<Rightarrow> quaternionD" where
  "QuatD a b c d = \<lparr>dqx = a, dqy = b, dqz = c, dqw = d\<rparr>"

definition dotD :: "vec3D \<Rightarrow> vec3D \<Rightarrow> double" where
  "dotD v u = dadd (dadd (dmul (dvx v) (dvx u)) (dmul (dvy v) (dvy u))) (dmul (dvz v) (dvz u))"

definition vmultD :: "quaternionD \<Rightarrow> vec3D \<Rightarrow> vec3D" where
  "vmultD q v =
     (let ix = dsub (dadd (dmul (dqw q) (dvx v)) (dmul (dqy q) (dvz v))) (dmul (dqz q) (dvy v));
          iy = dsub (dadd (dmul (dqw q) (dvy v)) (dmul (dqz q) (dvx v))) (dmul (dqx q) (dvz v));
          iz = dsub (dadd (dmul (dqw q) (dvz v)) (dmul (dqx q) (dvy v))) (dmul (dqy q) (dvx v));
          iw = dsub (dsub (dmul (dneg (dqx q)) (dvx v)) (dmul (dqy q) (dvy v)))
                    (dmul (dqz q) (dvz v))
      in \<lparr>dvx = dsub (dadd (dadd (dmul ix (dqw q)) (dmul iw (dneg (dqx q))))
                             (dmul iy (dneg (dqz q))))
                       (dmul iz (dneg (dqy q))),
          dvy = dsub (dadd (dadd (dmul iy (dqw q)) (dmul iw (dneg (dqy q))))
                             (dmul iz (dneg (dqx q))))
                       (dmul ix (dneg (dqz q))),
          dvz = dsub (dadd (dadd (dmul iz (dqw q)) (dmul iw (dneg (dqz q))))
                             (dmul ix (dneg (dqy q))))
                       (dmul iy (dneg (dqx q)))\<rparr>)"

definition multD :: "quaternionD \<Rightarrow> quaternionD \<Rightarrow> quaternionD" where
  "multD a b =
     \<lparr>dqx = dsub (dadd (dadd (dmul (dqx a) (dqw b)) (dmul (dqw a) (dqx b)))
                       (dmul (dqy a) (dqz b)))
                 (dmul (dqz a) (dqy b)),
      dqy = dsub (dadd (dadd (dmul (dqy a) (dqw b)) (dmul (dqw a) (dqy b)))
                       (dmul (dqz a) (dqx b)))
                 (dmul (dqx a) (dqz b)),
      dqz = dsub (dadd (dadd (dmul (dqz a) (dqw b)) (dmul (dqw a) (dqz b)))
                       (dmul (dqx a) (dqy b)))
                 (dmul (dqy a) (dqx b)),
      dqw = dsub (dsub (dsub (dmul (dqw a) (dqw b)) (dmul (dqx a) (dqx b)))
                       (dmul (dqy a) (dqy b)))
                 (dmul (dqz a) (dqz b))\<rparr>"

definition setFromAxisAngleD :: "vec3D \<Rightarrow> double \<Rightarrow> double \<Rightarrow> quaternionD" where
  "setFromAxisAngleD axis s c =
     \<lparr>dqx = dmul (dvx axis) s, dqy = dmul (dvy axis) s, dqz = dmul (dvz axis) s, dqw = c\<rparr>"

definition scaleQuatD :: "double \<Rightarrow> quaternionD \<Rightarrow> quaternionD" where
  "scaleQuatD c q =
     \<lparr>dqx = dmul c (dqx q), dqy = dmul c (dqy q), dqz = dmul c (dqz q), dqw = dmul c (dqw q)\<rparr>"

text \<open>The resolver of lines 204 to 228 once more, on doubles.\<close>

definition upVectorD :: vec3D where
  "upVectorD = Vec3D (Fin 0 0) (Fin 1 0) (Fin 0 0)"

definition facesD :: "vec3D list" where
  "facesD = [Vec3D (Fin 1 0) (Fin 0 0) (Fin 0 0), Vec3D (Fin (- 1) 0) (Fin 0 0) (Fin 0 0),
             Vec3D (Fin 0 0) (Fin 1 0) (Fin 0 0), Vec3D (Fin 0 0) (Fin (- 1) 0) (Fin 0 0),
             Vec3D (Fin 0 0) (Fin 0 0) (Fin 1 0), Vec3D (Fin 0 0) (Fin 0 0) (Fin (- 1) 0)]"

definition faceVectorsD :: "quaternionD \<Rightarrow> vec3D list" where
  "faceVectorsD q = map (vmultD q) facesD"

definition dotsD :: "quaternionD \<Rightarrow> double list" where
  "dotsD q = map (\<lambda>v. dotD v upVectorD) (faceVectorsD q)"

fun js_gtD :: "double option \<Rightarrow> double option \<Rightarrow> bool" where
  "js_gtD (Some a) (Some b) = dgt a b"
| "js_gtD _ _ = False"

function maxDotLoopD :: "double list \<Rightarrow> nat \<Rightarrow> nat \<Rightarrow> nat" where
  "maxDotLoopD ds i maxIdx =
     (if i < length ds
      then maxDotLoopD ds (i + 1)
             (if js_gtD (elemAt ds i) (elemAt ds maxIdx) then i else maxIdx)
      else maxIdx)"
  by pat_completeness auto
termination
  by (relation "measure (\<lambda>(ds, i, m). length ds - i)") auto

definition maxDotIndexD :: "quaternionD \<Rightarrow> nat" where
  "maxDotIndexD q = maxDotLoopD (dotsD q) 1 0"

definition resolverD :: "quaternionD \<Rightarrow> int option" where
  "resolverD q = elemAt faceMap (maxDotIndexD q)"


section \<open>Notions used to state the properties\<close>

text \<open>
  Face \<open>i\<close> attains the maximum when its dot product with world up is the largest of the
  six. This is the spec's notion, not a function of the source.
\<close>

definition attains_max :: "quaternion \<Rightarrow> nat \<Rightarrow> bool" where
  "attains_max q i \<longleftrightarrow> i < length (dots q) \<and> dots q ! i = Max (set (dots q))"

text \<open>
  The state after mounting: the \<^verbatim>\<open>useState\<close> defaults, the world created by
  \<^verbatim>\<open>initializePhysics\<close>, and the three bodies created by \<^verbatim>\<open>createDice\<close>, each
  a new \<^verbatim>\<open>CANNON.Body\<close> at the origin with the identity quaternion \<open>(0, 0, 0, 1)\<close>.
\<close>

definition identityQuat :: quaternion where
  "identityQuat = Quat 0 0 0 1"

definition newBody :: body where
  "newBody = \<lparr>position = Vec3 0 0 0, velocity = Vec3 0 0 0, angularVelocity = Vec3 0 0 0,
              quaternion = identityQuat, awake = True\<rparr>"

definition initialGame :: game where
  "initialGame = \<lparr>isShaking = False, isReadyToOpen = False, isBowlOpen = False,
                  isSoundOn = True, results = [], worldReady = True, synthReady = False,
                  diceBodies = [newBody, newBody, newBody], timers = [], played = []\<rparr>"

text \<open>
  A state with the bowl open and a round result on display, as it is after one shake, the
  settle delay, one opening and the reveal delay.
\<close>

definition openGame :: game where
  "openGame = \<lparr>isShaking = False, isReadyToOpen = True, isBowlOpen = True,
               isSoundOn = True, results = [Some 2, Some 2, Some 2], worldReady = True,
               synthReady = True, diceBodies = [newBody, newBody, newBody], timers = [],
               played = [ShakeSound, OpenSound]\<rparr>"

text \<open>A run of \<^verbatim>\<open>Math.random\<close> that returns one half at every call.\<close>

definition coin :: "nat \<Rightarrow> real" where
  "coin k = 1 / 2"

text \<open>
  Orientations used as concrete inputs: a die lying with local \<open>+X\<close> up, one with local
  \<open>-Z\<close> up, and a unit quaternion that balances the die on an edge, local \<open>-X\<close> and
  \<open>-Z\<close> equally high.
\<close>

definition xUpQuat :: quaternion where
  "xUpQuat = Quat (1 / 2) (1 / 2) (1 / 2) (1 / 2)"

definition zDownQuat :: quaternion where
  "zDownQuat = Quat (1 / 2) (1 / 2) (- 1 / 2) (1 / 2)"

definition edgeQuat :: quaternion where
  "edgeQuat = Quat (6 / 11) 0 (- 6 / 11) (7 / 11)"


text \<open>
  The real value of a finite double, and the two constants of rounding: half the spacing
  of doubles relative to their size, \<open>ulp = 2\<^sup>-\<^sup>5\<^sup>3\<close>, and half the smallest
  subnormal step, \<open>eta = 2\<^sup>-\<^sup>1\<^sup>0\<^sup>7\<^sup>5\<close>.
\<close>

definition pow2 :: "int \<Rightarrow> real" where
  "pow2 e = (if 0 \<le> e then 2 ^ nat e else 1 / 2 ^ nat (- e))"

fun val :: "double \<Rightarrow> real" where
  "val (Fin m e) = of_int m * pow2 e"
| "val _ = 0"

fun is_finite :: "double \<Rightarrow> bool" where
  "is_finite (Fin m e) = True"
| "is_finite _ = False"

definition ulp :: real where
  "ulp = 1 / 2 ^ 53"

definition eta :: real where
  "eta = 1 / 2 ^ 1075"

text \<open>
  \<open>box s M n x a\<close>: the double \<open>x\<close> is finite and approximates the real \<open>a\<close>, where
  \<open>\<bar>a\<bar> \<le> M s\<close> and the error is at most \<open>n ulp s\<close>. \<open>errMul\<close> and \<open>errAdd\<close> give
  the error count of a product and of a sum from those of the operands.
\<close>

definition box :: "real \<Rightarrow> real \<Rightarrow> real \<Rightarrow> double \<Rightarrow> real \<Rightarrow> bool" where
  "box s M n x a \<longleftrightarrow> is_finite x \<and> \<bar>a\<bar> \<le> M * s \<and> \<bar>val x - a\<bar> \<le> n * ulp * s"

definition errMul :: "real \<Rightarrow> real \<Rightarrow> real \<Rightarrow> real \<Rightarrow> real" where
  "errMul M1 n1 M2 n2 = (M1 + n1 * ulp) * (M2 + n2 * ulp) + 1 + n1 * (M2 + n2 * ulp) + M1 * n2"

definition errAdd :: "real \<Rightarrow> real \<Rightarrow> real \<Rightarrow> real \<Rightarrow> real" where
  "errAdd M1 n1 M2 n2 = n1 + n2 + (M1 + M2 + (n1 + n2) * ulp) + 1"

definition err3 :: "real \<Rightarrow> real \<Rightarrow> real" where
  "err3 M n = errAdd (M + M) (errAdd M n M n) M n"

definition err4 :: "real \<Rightarrow> real \<Rightarrow> real" where
  "err4 M n = errAdd (M + M + M) (err3 M n) M n"

definition qbox :: "real \<Rightarrow> real \<Rightarrow> real \<Rightarrow> quaternionD \<Rightarrow> quaternion \<Rightarrow> bool" where
  "qbox s M n q Q \<longleftrightarrow>
     box s M n (dqx q) (qx Q) \<and> box s M n (dqy q) (qy Q) \<and>
     box s M n (dqz q) (qz Q) \<and> box s M n (dqw q) (qw Q)"

definition vbox :: "real \<Rightarrow> real \<Rightarrow> real \<Rightarrow> vec3D \<Rightarrow> vec3 \<Rightarrow> bool" where
  "vbox s M n v V \<longleftrightarrow>
     box s M n (dvx v) (vx V) \<and> box s M n (dvy v) (vy V) \<and> box s M n (dvz v) (vz V)"

definition valQ :: "quaternionD \<Rightarrow> quaternion" where
  "valQ q = \<lparr>qx = val (dqx q), qy = val (dqy q), qz = val (dqz q), qw = val (dqw q)\<rparr>"

text \<open>A quaternion whose four components are finite doubles of magnitude at most 1.\<close>

definition bounded_quat :: "quaternionD \<Rightarrow> bool" where
  "bounded_quat q \<longleftrightarrow>
     is_finite (dqx q) \<and> is_finite (dqy q) \<and> is_finite (dqz q) \<and> is_finite (dqw q) \<and>
     \<bar>val (dqx q)\<bar> \<le> 1 \<and> \<bar>val (dqy q)\<bar> \<le> 1 \<and> \<bar>val (dqz q)\<bar> \<le> 1 \<and> \<bar>val (dqw q)\<bar> \<le> 1"

text \<open>
  Concrete doubles: the edge-balanced unit quaternion \<open>(6/11, 0, -6/11, 7/11)\<close> rounded to
  doubles, the values of \<^verbatim>\<open>Math.sin(0.05)\<close> and \<^verbatim>\<open>Math.cos(0.05)\<close>
  (0.04997916927067833 and 0.9987502603949663), the orientation with local \<open>-Z\<close> up, the
  scalar \<open>2\<^sup>-\<^sup>6\<^sup>0\<^sup>0\<close> and the double nearest to one tenth.
\<close>

definition edgeQuatD :: quaternionD where
  "edgeQuatD = QuatD (Fin 1228254443828317 (- 51)) (Fin 0 0)
                     (Fin (- 1228254443828317) (- 51)) (Fin 5731854071198813 (- 53))"

definition sinD :: double where
  "sinD = Fin 1800689344829711 (- 55)"

definition cosD :: double where
  "cosD = Fin 1124492825137739 (- 50)"

definition zDownQuatD :: quaternionD where
  "zDownQuatD = QuatD (Fin 1 (- 1)) (Fin 1 (- 1)) (Fin (- 1) (- 1)) (Fin 1 (- 1))"

definition tinyD :: double where
  "tinyD = Fin 1 (- 600)"

definition tenthD :: double where
  "tenthD = Fin 3602879701896397 (- 55)"


section \<open>The resolver's loop\<close>

declare maxDotLoop.simps [simp del]

lemma maxDotLoop_bound:
  "m < length ds \<Longrightarrow> maxDotLoop ds i m < length ds"
proof (induction ds i m rule: maxDotLoop.induct)
  case (1 ds i m)
  show ?case
  proof (cases "i < length ds")
    case True
    then show ?thesis
      using "1.IH" "1.prems" by (simp add: maxDotLoop.simps [of ds i m])
  next
    case False
    then show ?thesis
      using "1.prems" by (simp add: maxDotLoop.simps [of ds i m])
  qed
qed

text \<open>
  The loop invariant: before iteration \<open>i\<close>, \<open>m\<close> is the first index among
  \<open>0, ..., i - 1\<close> that holds the largest value seen. At exit it is the first index of
  the maximum of the whole array.
\<close>

lemma maxDotLoop_spec:
  assumes "m < i" "i \<le> length ds" "\<forall>j<i. ds ! j \<le> ds ! m" "\<forall>j<m. ds ! j < ds ! m"
  shows "maxDotLoop ds i m < length ds \<and>
         (\<forall>j<length ds. ds ! j \<le> ds ! maxDotLoop ds i m) \<and>
         (\<forall>j<maxDotLoop ds i m. ds ! j < ds ! maxDotLoop ds i m)"
  using assms
proof (induction ds i m rule: maxDotLoop.induct)
  case (1 ds i m)
  show ?case
  proof (cases "i < length ds")
    case False
    then have r: "maxDotLoop ds i m = m" by (simp add: maxDotLoop.simps [of ds i m])
    from False "1.prems" have "i = length ds" by simp
    with "1.prems" show ?thesis unfolding r by simp
  next
    case True
    let ?m' = "if js_gt (elemAt ds i) (elemAt ds m) then i else m"
    have m_lt: "m < length ds" using "1.prems" True by simp
    have gt: "js_gt (elemAt ds i) (elemAt ds m) = (ds ! i > ds ! m)"
      using True m_lt by (simp add: elemAt_def)
    have a: "?m' < i + 1" using "1.prems" by simp
    have b: "i + 1 \<le> length ds" using True by simp
    have c: "\<forall>j<i + 1. ds ! j \<le> ds ! ?m'"
    proof (intro allI impI)
      fix j assume "j < i + 1"
      then consider "j < i" | "j = i" by linarith
      then show "ds ! j \<le> ds ! ?m'"
      proof cases
        case 1
        then have "ds ! j \<le> ds ! m" using "1.prems" by simp
        then show ?thesis using gt by auto
      next
        case 2
        then show ?thesis using gt by auto
      qed
    qed
    have d: "\<forall>j<?m'. ds ! j < ds ! ?m'"
    proof (intro allI impI)
      fix j assume j: "j < ?m'"
      show "ds ! j < ds ! ?m'"
      proof (cases "ds ! i > ds ! m")
        case True
        then have "?m' = i" using gt by simp
        moreover from this j have "ds ! j \<le> ds ! m" using "1.prems" by simp
        ultimately show ?thesis using True by simp
      next
        case False
        then have "?m' = m" using gt by simp
        then show ?thesis using j "1.prems" by simp
      qed
    qed
    have "maxDotLoop ds i m = maxDotLoop ds (i + 1) ?m'"
      using True by (simp add: maxDotLoop.simps [of ds i m])
    then show ?thesis using "1.IH" [OF True a b c d] by simp
  qed
qed


section \<open>The six dot products\<close>

text \<open>
  With \<open>q = (x, y, z, w)\<close> the six entries of \<open>dots\<close> are \<open>a, -a, b, -b, c, -c\<close> for
  \<open>a = 2 (x y + w z)\<close>, \<open>b = w\<^sup>2 + y\<^sup>2 - x\<^sup>2 - z\<^sup>2\<close> and
  \<open>c = 2 (y z - w x)\<close>.
\<close>

lemma dots_explicit:
  "dots q = [2 * (qx q * qy q + qw q * qz q), - (2 * (qx q * qy q + qw q * qz q)),
             qw q * qw q + qy q * qy q - qx q * qx q - qz q * qz q,
             - (qw q * qw q + qy q * qy q - qx q * qx q - qz q * qz q),
             2 * (qy q * qz q - qw q * qx q), - (2 * (qy q * qz q - qw q * qx q))]"
  by (simp add: dots_def faceVectors_def faces_def vmult_def dot_def upVector_def Vec3_def
      Let_def algebra_simps)

lemma length_dots: "length (dots q) = 6"
  by (simp add: dots_def faceVectors_def faces_def)

lemma dots_scaleQuat: "dots (scaleQuat c q) = map ((*) (c * c)) (dots q)"
  by (simp add: dots_explicit scaleQuat_def algebra_simps)

lemma dots_identityQuat: "dots identityQuat = [0, 0, 1, - 1, 0, 0]"
  by (simp add: dots_explicit identityQuat_def Quat_def)

lemma dots_xUpQuat: "dots xUpQuat = [1, - 1, 0, 0, 0, 0]"
  by (simp add: dots_explicit xUpQuat_def Quat_def)

lemma dots_zDownQuat: "dots zDownQuat = [0, 0, 0, 0, - 1, 1]"
  by (simp add: dots_explicit zDownQuat_def Quat_def)

lemma dots_edgeQuat:
  "dots edgeQuat = [- (84 / 121), 84 / 121, - (23 / 121), 23 / 121, - (84 / 121), 84 / 121]"
  by (simp add: dots_explicit edgeQuat_def Quat_def)


section \<open>The selected face\<close>

lemma maxDotIndex_bound: "maxDotIndex q < 6"
  using maxDotLoop_bound [of 0 "dots q" 1] by (simp add: maxDotIndex_def length_dots)

lemma maxDotIndex_spec:
  "maxDotIndex q < 6 \<and>
   (\<forall>j<6. dots q ! j \<le> dots q ! maxDotIndex q) \<and>
   (\<forall>j<maxDotIndex q. dots q ! j < dots q ! maxDotIndex q)"
  using maxDotLoop_spec [of 0 1 "dots q"] by (simp add: maxDotIndex_def length_dots)

lemma maxDotIndex_Max: "dots q ! maxDotIndex q = Max (set (dots q))"
proof (rule sym, rule Max_eqI)
  show "finite (set (dots q))" by simp
  show "dots q ! maxDotIndex q \<in> set (dots q)"
    using maxDotIndex_spec [of q] by (simp add: length_dots)
  fix y assume "y \<in> set (dots q)"
  then obtain j where "j < 6" "dots q ! j = y"
    by (auto simp: in_set_conv_nth length_dots)
  then show "y \<le> dots q ! maxDotIndex q"
    using maxDotIndex_spec [of q] by auto
qed

lemma maxDotIndex_eval:
  "maxDotIndex identityQuat = 2" "maxDotIndex xUpQuat = 0" "maxDotIndex zDownQuat = 5"
  "maxDotIndex edgeQuat = 1"
  by (simp_all add: maxDotIndex_def dots_identityQuat dots_xUpQuat dots_zDownQuat
      dots_edgeQuat maxDotLoop.simps elemAt_def)

lemma less_6_cases:
  "(i::nat) < 6 \<Longrightarrow> i = 0 \<or> i = 1 \<or> i = 2 \<or> i = 3 \<or> i = 4 \<or> i = 5"
  by arith

lemma all_less_6:
  "(\<forall>j<6::nat. P j) \<longleftrightarrow> P 0 \<and> P 1 \<and> P 2 \<and> P 3 \<and> P 4 \<and> P 5"
  using less_6_cases by auto

lemma elemAt_faceMap: "i < 6 \<Longrightarrow> elemAt faceMap i = Some (faceMap ! i)"
  by (simp add: elemAt_def faceMap_def)

lemma faceMap_range: "i < 6 \<Longrightarrow> 1 \<le> faceMap ! i \<and> faceMap ! i \<le> 6"
  using less_6_cases [of i] by (auto simp: faceMap_def)

lemma resolver_eq: "resolver q = Some (faceMap ! maxDotIndex q)"
  by (simp add: resolver_def elemAt_faceMap maxDotIndex_bound)

section \<open>Rounding error of the operations on doubles\<close>

declare bits.simps [simp del]
declare maxDotLoopD.simps [simp del]

lemma bits_0: "bits 0 = 0"
  by (simp add: bits.simps)

lemma bits_1: "bits 1 = 1"
  by (simp add: bits.simps [of 1] bits_0)

lemma bits_Bit0: "bits (numeral (Num.Bit0 n)) = 1 + bits (numeral n)"
  by (subst bits.simps) simp

lemma bits_Bit1: "bits (numeral (Num.Bit1 n)) = 1 + bits (numeral n)"
  by (subst bits.simps) simp

lemma bits_One: "bits (numeral Num.One) = 1"
  using bits_1 by simp

lemmas bits_eval = bits_0 bits_1 bits_Bit0 bits_Bit1 bits_One

lemma fl_unfold: "fl m e = flA m e (bits \<bar>m\<bar>)"
  unfolding fl_def flA_def flB_def flPack_def Let_def by (rule refl)

lemma roundShift_unfold: "roundShift a k = rsA a (2 ^ k)"
  unfolding roundShift_def rsA_def rsB_def Let_def by (rule refl)

lemmas double_eval = fl_unfold flA_def flB_def flPack_def roundShift_unfold rsA_def rsB_def
  bits_eval dsub_def

lemmas resolverD_eval = resolverD_def maxDotIndexD_def maxDotLoopD.simps elemAt_def faceMap_def

lemmas dotsD_eval = dotsD_def faceVectorsD_def facesD_def vmultD_def dotD_def upVectorD_def
  Vec3D_def QuatD_def Let_def multD_def setFromAxisAngleD_def scaleQuatD_def

lemma pow2_powr: "pow2 e = 2 powr (of_int e)"
proof (cases "0 \<le> e")
  case True
  then have "real_of_int e = real (nat e)" by simp
  then have "(2::real) powr (of_int e) = 2 ^ nat e"
    by (simp only: powr_realpow [of 2 "nat e", OF zero_less_numeral])
  with True show ?thesis by (simp add: pow2_def)
next
  case False
  then have "real_of_int e = - real (nat (- e))" by simp
  then have "(2::real) powr (of_int e) = 1 / 2 ^ nat (- e)"
    by (simp only: powr_minus powr_realpow [of 2 "nat (- e)", OF zero_less_numeral]
        inverse_eq_divide)
  with False show ?thesis by (simp add: pow2_def)
qed

lemma pow2_pos: "0 < pow2 e"
  by (simp add: pow2_powr)

lemma pow2_add: "pow2 (a + b) = pow2 a * pow2 b"
  by (simp add: pow2_powr powr_add)

lemma pow2_nat: "pow2 (int n) = 2 ^ n"
  by (simp add: pow2_def)

lemma pow2_mono: "a \<le> b \<Longrightarrow> pow2 a \<le> pow2 b"
  by (simp add: pow2_powr)

lemma pow2_less: "a < b \<Longrightarrow> pow2 a < pow2 b"
  by (simp add: pow2_powr)

lemma ulp_pow2: "ulp = pow2 (- 53)"
  by (simp add: ulp_def pow2_def)

lemma eta_pow2: "eta = pow2 (- 1075)"
  by (simp add: eta_def pow2_def)

lemma bits_nonneg: "0 \<le> bits a"
proof (induction a rule: bits.induct)
  case (1 a)
  then show ?case by (subst bits.simps) auto
qed

lemma bits_bounds:
  "0 < a \<Longrightarrow> 1 \<le> bits a \<and> 2 ^ nat (bits a - 1) \<le> a \<and> a < 2 ^ nat (bits a)"
proof (induction a rule: bits.induct)
  case (1 a)
  show ?case
  proof (cases "a = 1")
    case True
    then show ?thesis by (simp add: bits_1)
  next
    case False
    with "1.prems" have h: "0 < a div 2" by simp
    from "1.prems" have na: "\<not> a \<le> 0" by simp
    have b: "bits a = 1 + bits (a div 2)"
      using na by (subst bits.simps) simp
    from "1.IH" [OF na h] have ih: "1 \<le> bits (a div 2)"
      "2 ^ nat (bits (a div 2) - 1) \<le> a div 2" "a div 2 < 2 ^ nat (bits (a div 2))"
      by simp_all
    have n1: "nat (bits a - 1) = Suc (nat (bits (a div 2) - 1))"
      using b ih(1) by simp
    have n2: "nat (bits a) = Suc (nat (bits (a div 2)))"
      using b ih(1) by simp
    have "2 * 2 ^ nat (bits (a div 2) - 1) \<le> 2 * (a div 2)" using ih(2) by simp
    also have "\<dots> \<le> a" by simp
    finally have lo: "2 ^ nat (bits a - 1) \<le> a" by (simp add: n1)
    have "a < 2 * (a div 2) + 2" by simp
    also have "\<dots> \<le> 2 * 2 ^ nat (bits (a div 2))" using ih(3) by simp
    finally have hi: "a < 2 ^ nat (bits a)" by (simp add: n2)
    from b ih(1) lo hi show ?thesis by simp
  qed
qed

lemma roundShift_nonneg: "0 \<le> a \<Longrightarrow> 0 \<le> roundShift a k"
  by (simp add: roundShift_def Let_def pos_imp_zdiv_nonneg_iff)

lemma roundShift_error:
  "\<bar>2 * (roundShift a k * 2 ^ k - a)\<bar> \<le> 2 ^ k"
proof -
  define p :: int where "p = 2 ^ k"
  have p: "0 < p" by (simp add: p_def)
  define qt where "qt = a div p"
  define r where "r = a mod p"
  have a: "a = qt * p + r" by (simp add: qt_def r_def)
  have r: "0 \<le> r" "r < p" using p by (simp_all add: r_def)
  have rs: "roundShift a k = (if p < 2 * r \<or> (2 * r = p \<and> odd qt) then qt + 1 else qt)"
    by (simp add: roundShift_def Let_def p_def qt_def r_def)
  show ?thesis
  proof (cases "p < 2 * r \<or> (2 * r = p \<and> odd qt)")
    case True
    then have v: "roundShift a k = qt + 1" by (simp only: rs if_True)
    have "roundShift a k * p - a = p - r"
      unfolding v by (subst a) (simp add: algebra_simps)
    moreover from True r have "2 * (p - r) \<le> p" "0 \<le> p - r" by auto
    ultimately show ?thesis unfolding p_def [symmetric] by simp
  next
    case False
    then have v: "roundShift a k = qt" by (simp only: rs if_False)
    have "roundShift a k * p - a = - r"
      unfolding v by (subst a) (simp add: algebra_simps)
    moreover from False r have "2 * r \<le> p" by auto
    ultimately show ?thesis unfolding p_def [symmetric] using r by simp
  qed
qed

lemma roundShift_0: "roundShift a 0 = a"
  by (simp add: roundShift_def)

text \<open>
  Rounding a number of magnitude at most \<open>2\<^sup>1\<^sup>0\<^sup>0\<^sup>0\<close> gives a finite double, off by at
  most \<open>ulp\<close> times the magnitude plus \<open>eta\<close>.
\<close>

lemma fl_error:
  assumes z: "\<bar>of_int m * pow2 e\<bar> \<le> 2 ^ 1000"
  shows "is_finite (fl m e) \<and>
         \<bar>val (fl m e) - of_int m * pow2 e\<bar> \<le> ulp * \<bar>of_int m * pow2 e\<bar> + eta"
proof -
  define a where "a = \<bar>m\<bar>"
  define b where "b = bits a"
  define k where "k = nat (max (b - 53) (- 1074 - e))"
  define a' where "a' = roundShift a k"
  define e' where "e' = e + int k"
  define za :: real where "za = of_int a * pow2 e"
  have a0: "0 \<le> a" by (simp add: a_def)
  have a'0: "0 \<le> a'" using a0 by (simp add: a'_def roundShift_nonneg)
  have za0: "0 \<le> za" using a0 pow2_pos [of e] by (simp add: za_def)
  have absz: "\<bar>of_int m * pow2 e\<bar> = za"
    using pow2_pos [of e] by (simp add: za_def a_def abs_mult)
  have flv: "fl m e = (if a' \<noteq> 0 \<and> 1024 < bits a' + e' then (if m < 0 then NInf else PInf)
                       else Fin (sgn m * a') e')"
    by (simp add: fl_def Let_def a_def b_def k_def a'_def e'_def)
  have pe': "pow2 e' = pow2 e * 2 ^ k"
    by (simp add: e'_def pow2_add pow2_nat)
  have diff: "of_int a' * pow2 e' - za = (of_int a' * 2 ^ k - of_int a) * pow2 e"
    by (simp add: pe' za_def algebra_simps)
  have core: "\<bar>of_int a' * pow2 e' - za\<bar> \<le> ulp * za + eta"
  proof (cases "k = 0")
    case True
    then have "a' = a" by (simp add: a'_def roundShift_0)
    with True have "of_int a' * pow2 e' - za = 0" unfolding diff by simp
    moreover have "0 \<le> ulp * za + eta" using za0 by (simp add: ulp_def eta_def)
    ultimately show ?thesis by simp
  next
    case False
    then have k1: "1 \<le> int k" by simp
    have "0 < max (b - 53) (- 1074 - e)"
      using False unfolding k_def by linarith
    then have kk: "int k = max (b - 53) (- 1074 - e)"
      unfolding k_def by linarith
    have "\<bar>2 * (a' * 2 ^ k - a)\<bar> \<le> 2 ^ k"
      unfolding a'_def by (rule roundShift_error)
    then have "\<bar>real_of_int (2 * (a' * 2 ^ k - a))\<bar> \<le> real_of_int (2 ^ k)"
      by (simp only: of_int_abs [symmetric] of_int_le_iff)
    moreover have "real_of_int (2 * (a' * 2 ^ k - a)) = 2 * (of_int a' * 2 ^ k - of_int a)"
      by simp
    moreover have "real_of_int (2 ^ k) = 2 ^ k" by simp
    ultimately have "\<bar>2 * (real_of_int a' * 2 ^ k - of_int a)\<bar> \<le> (2::real) ^ k"
      by (simp only:)
    then have r: "2 * \<bar>of_int a' * 2 ^ k - of_int a\<bar> \<le> (2::real) ^ k"
      by (simp only: abs_mult abs_numeral)
    have half: "(2::real) ^ k = 2 * pow2 (int k - 1)"
    proof -
      have "pow2 (int k) = pow2 (1 + (int k - 1))" by simp
      also have "\<dots> = pow2 1 * pow2 (int k - 1)" by (rule pow2_add)
      finally show ?thesis by (simp add: pow2_nat pow2_def)
    qed
    from r half have r2: "\<bar>of_int a' * 2 ^ k - of_int a\<bar> \<le> pow2 (int k - 1)" by simp
    have "\<bar>of_int a' * pow2 e' - za\<bar> = \<bar>of_int a' * 2 ^ k - of_int a\<bar> * pow2 e"
      using pow2_pos [of e] by (simp add: diff abs_mult)
    also have "\<dots> \<le> pow2 (int k - 1) * pow2 e"
      using r2 pow2_pos [of e] by (simp add: mult_right_mono)
    also have "\<dots> = pow2 (int k - 1 + e)" by (simp add: pow2_add)
    finally have bnd: "\<bar>of_int a' * pow2 e' - za\<bar> \<le> pow2 (int k - 1 + e)" .
    show ?thesis
    proof (cases "b - 53 \<le> - 1074 - e")
      case True
      with kk have "int k - 1 + e = - 1075" by simp
      with bnd have "\<bar>of_int a' * pow2 e' - za\<bar> \<le> eta" by (simp add: eta_pow2)
      moreover have "0 \<le> ulp * za" using za0 by (simp add: ulp_def)
      ultimately show ?thesis by linarith
    next
      case False
      with kk have kb: "int k = b - 53" by simp
      with k1 have b54: "54 \<le> b" by simp
      have apos: "0 < a"
      proof (rule ccontr)
        assume "\<not> 0 < a"
        with a0 have "a = 0" by simp
        then have "b = 0" by (simp add: b_def bits_0)
        with b54 show False by simp
      qed
      from bits_bounds [OF apos] have "2 ^ nat (b - 1) \<le> a" by (simp add: b_def)
      then have "real_of_int (2 ^ nat (b - 1)) \<le> real_of_int a" by (simp only: of_int_le_iff)
      then have "(2::real) ^ nat (b - 1) \<le> of_int a" by simp
      moreover have "pow2 (b - 1) = 2 ^ nat (b - 1)" using b54 by (simp add: pow2_def)
      ultimately have lo: "pow2 (b - 1) \<le> of_int a" by simp
      have "pow2 (int k - 1 + e) = pow2 (- 53) * (pow2 (b - 1) * pow2 e)"
      proof -
        have "int k - 1 + e = - 53 + ((b - 1) + e)" using kb by simp
        then show ?thesis by (simp only: pow2_add)
      qed
      also have "\<dots> \<le> pow2 (- 53) * (of_int a * pow2 e)"
        using lo pow2_pos [of e] pow2_pos [of "- 53"] by (simp add: mult_right_mono)
      finally have "pow2 (int k - 1 + e) \<le> ulp * za" by (simp add: ulp_pow2 za_def)
      with bnd have "\<bar>of_int a' * pow2 e' - za\<bar> \<le> ulp * za" by linarith
      moreover have "0 \<le> eta" by (simp add: eta_def)
      ultimately show ?thesis by linarith
    qed
  qed
  have noov: "\<not> (a' \<noteq> 0 \<and> 1024 < bits a' + e')"
  proof
    assume h: "a' \<noteq> 0 \<and> 1024 < bits a' + e'"
    with a'0 have a'pos: "0 < a'" by simp
    from bits_bounds [OF a'pos] have b1: "1 \<le> bits a'" and "2 ^ nat (bits a' - 1) \<le> a'"
      by simp_all
    then have "real_of_int (2 ^ nat (bits a' - 1)) \<le> real_of_int a'"
      by (simp only: of_int_le_iff)
    then have "(2::real) ^ nat (bits a' - 1) \<le> of_int a'" by simp
    moreover have "pow2 (bits a' - 1) = 2 ^ nat (bits a' - 1)" using b1 by (simp add: pow2_def)
    ultimately have lo: "pow2 (bits a' - 1) \<le> of_int a'" by simp
    have "pow2 (bits a' - 1 + e') = pow2 (bits a' - 1) * pow2 e'" by (rule pow2_add)
    also have "\<dots> \<le> of_int a' * pow2 e'"
      using lo pow2_pos [of e'] by (simp add: mult_right_mono)
    also have "\<dots> \<le> za + (ulp * za + eta)" using core by linarith
    also have "\<dots> \<le> 2 ^ 1000 + (1 * 2 ^ 1000 + 1)"
    proof -
      have "za \<le> 2 ^ 1000" using z absz by simp
      moreover have "ulp * za \<le> 1 * za"
        using za0 by (intro mult_right_mono) (simp_all add: ulp_def)
      moreover have "eta \<le> 1" by (simp add: eta_def)
      ultimately show ?thesis by linarith
    qed
    also have "\<dots> < pow2 1002" by (simp add: pow2_def)
    finally have "pow2 (bits a' - 1 + e') < pow2 1002" .
    then have "bits a' - 1 + e' < 1002"
      using pow2_mono [of 1002 "bits a' - 1 + e'"] by (cases "bits a' - 1 + e' < 1002") auto
    with h show False by simp
  qed
  have fin: "fl m e = Fin (sgn m * a') e'" using flv noov by simp
  have "val (fl m e) - of_int m * pow2 e = of_int (sgn m) * (of_int a' * pow2 e' - za)"
  proof -
    have "m = sgn m * a" by (simp add: a_def mult_sgn_abs)
    then have "real_of_int m = of_int (sgn m) * of_int a" by (metis of_int_mult)
    then show ?thesis by (simp add: fin za_def algebra_simps)
  qed
  then have "\<bar>val (fl m e) - of_int m * pow2 e\<bar> = \<bar>real_of_int (sgn m)\<bar> * \<bar>of_int a' * pow2 e' - za\<bar>"
    by (simp add: abs_mult)
  also have "\<dots> \<le> 1 * \<bar>of_int a' * pow2 e' - za\<bar>"
    by (intro mult_right_mono) (simp_all add: sgn_if)
  finally have "\<bar>val (fl m e) - of_int m * pow2 e\<bar> \<le> ulp * za + eta" using core by simp
  then show ?thesis by (simp add: fin absz)
qed

lemma val_dneg: "val (dneg x) = - val x"
  by (cases x) simp_all

lemma is_finite_dneg: "is_finite (dneg x) = is_finite x"
  by (cases x) simp_all

lemma dmul_error:
  assumes "is_finite x" and "is_finite y" and "\<bar>val x * val y\<bar> \<le> 2 ^ 1000"
  shows "is_finite (dmul x y) \<and>
         \<bar>val (dmul x y) - val x * val y\<bar> \<le> ulp * \<bar>val x * val y\<bar> + eta"
proof -
  from assms(1) obtain m e where x: "x = Fin m e" by (cases x) simp_all
  from assms(2) obtain n f where y: "y = Fin n f" by (cases y) simp_all
  have v: "of_int (m * n) * pow2 (e + f) = val x * val y"
    by (simp add: x y pow2_add)
  have "\<bar>of_int (m * n) * pow2 (e + f)\<bar> \<le> 2 ^ 1000"
    using assms(3) by (simp only: v)
  from fl_error [OF this] show ?thesis
    by (simp only: v) (simp add: x y)
qed

lemma dadd_error:
  assumes "is_finite x" and "is_finite y" and "\<bar>val x + val y\<bar> \<le> 2 ^ 1000"
  shows "is_finite (dadd x y) \<and>
         \<bar>val (dadd x y) - (val x + val y)\<bar> \<le> ulp * \<bar>val x + val y\<bar> + eta"
proof -
  from assms(1) obtain m e where x: "x = Fin m e" by (cases x) simp_all
  from assms(2) obtain n f where y: "y = Fin n f" by (cases y) simp_all
  define g where "g = min e f"
  have pe: "pow2 e = 2 ^ nat (e - g) * pow2 g"
  proof -
    have "pow2 e = pow2 (int (nat (e - g)) + g)" by (simp add: g_def)
    also have "\<dots> = pow2 (int (nat (e - g))) * pow2 g" by (rule pow2_add)
    finally show ?thesis by (simp only: pow2_nat)
  qed
  have pf: "pow2 f = 2 ^ nat (f - g) * pow2 g"
  proof -
    have "pow2 f = pow2 (int (nat (f - g)) + g)" by (simp add: g_def)
    also have "\<dots> = pow2 (int (nat (f - g))) * pow2 g" by (rule pow2_add)
    finally show ?thesis by (simp only: pow2_nat)
  qed
  have "val x + val y = of_int m * pow2 e + of_int n * pow2 f" by (simp add: x y)
  also have "\<dots> = of_int m * (2 ^ nat (e - g) * pow2 g) + of_int n * (2 ^ nat (f - g) * pow2 g)"
    by (simp only: pe [symmetric] pf [symmetric])
  also have "\<dots> = of_int (m * 2 ^ nat (e - g) + n * 2 ^ nat (f - g)) * pow2 g"
    by (simp add: algebra_simps)
  finally have v: "of_int (m * 2 ^ nat (e - g) + n * 2 ^ nat (f - g)) * pow2 g = val x + val y"
    by (rule sym)
  have "\<bar>of_int (m * 2 ^ nat (e - g) + n * 2 ^ nat (f - g)) * pow2 g\<bar> \<le> 2 ^ 1000"
    using assms(3) by (simp only: v)
  from fl_error [OF this] show ?thesis
    by (simp only: v) (simp add: x y g_def)
qed

text \<open>The error of a product, a sum and a difference, from the errors of the operands.\<close>

lemma box_exact: "is_finite x \<Longrightarrow> \<bar>val x\<bar> \<le> M * s \<Longrightarrow> box s M 0 x (val x)"
  by (simp add: box_def)

lemma box_neg:
  assumes "box s M n x a"
  shows "box s M n (dneg x) (- a)"
proof -
  from assms have "is_finite x" "\<bar>a\<bar> \<le> M * s" "\<bar>val x - a\<bar> \<le> n * ulp * s"
    by (simp_all add: box_def)
  moreover have "\<bar>val (dneg x) - (- a)\<bar> = \<bar>val x - a\<bar>"
    unfolding val_dneg by linarith
  ultimately show ?thesis by (simp only: box_def is_finite_dneg abs_minus_cancel)
qed

lemma box_weaken:
  assumes "box s M n x a" and "M \<le> M'" and "n \<le> n'" and "0 \<le> s"
  shows "box s M' n' x a"
proof -
  have "M * s \<le> M' * s" using assms(2,4) by (rule mult_right_mono)
  moreover have "n * ulp * s \<le> n' * ulp * s"
    using assms(3,4) by (intro mult_right_mono) (simp_all add: ulp_def)
  ultimately show ?thesis using assms(1) unfolding box_def by linarith
qed

lemma box_val_bound:
  assumes "box s M n x a"
  shows "\<bar>val x\<bar> \<le> (M + n * ulp) * s"
proof -
  from assms have "\<bar>a\<bar> \<le> M * s" "\<bar>val x - a\<bar> \<le> n * ulp * s" by (simp_all add: box_def)
  then have "\<bar>val x\<bar> \<le> M * s + n * ulp * s" by linarith
  then show ?thesis by (simp add: algebra_simps)
qed

lemma box_mul:
  assumes bx: "box s1 M1 n1 x a" and "box s2 M2 n2 y b"
    and s: "0 < s1" "0 < s2" and nn: "0 \<le> M1" "0 \<le> n1" "0 \<le> M2" "0 \<le> n2"
    and eta: "eta \<le> ulp * (s1 * s2)"
    and rng: "(M1 + n1 * ulp) * (M2 + n2 * ulp) \<le> 2 ^ 20" "s1 * s2 \<le> 2 ^ 980"
  shows "box (s1 * s2) (M1 * M2) (errMul M1 n1 M2 n2) (dmul x y) (a * b)"
proof -
  define X where "X = (M1 + n1 * ulp) * s1"
  define Y where "Y = (M2 + n2 * ulp) * s2"
  have u0: "0 \<le> ulp" by (simp add: ulp_def)
  have fx: "is_finite x" and a: "\<bar>a\<bar> \<le> M1 * s1" and ea: "\<bar>val x - a\<bar> \<le> n1 * ulp * s1"
    using bx by (simp_all add: box_def)
  have fy: "is_finite y" and b: "\<bar>b\<bar> \<le> M2 * s2" and eb: "\<bar>val y - b\<bar> \<le> n2 * ulp * s2"
    using assms(2) by (simp_all add: box_def)
  have vx: "\<bar>val x\<bar> \<le> X" unfolding X_def using bx by (rule box_val_bound)
  have vy: "\<bar>val y\<bar> \<le> Y" unfolding Y_def using assms(2) by (rule box_val_bound)
  have X0: "0 \<le> X" using vx by linarith
  have Y0: "0 \<le> Y" using vy by linarith
  have XY: "X * Y = (M1 + n1 * ulp) * (M2 + n2 * ulp) * (s1 * s2)"
    by (simp add: X_def Y_def algebra_simps)
  have p: "\<bar>val x * val y\<bar> \<le> X * Y"
    unfolding abs_mult using vx vy by (intro mult_mono) simp_all
  have "X * Y \<le> 2 ^ 20 * 2 ^ 980"
    unfolding XY using rng s by (intro mult_mono) simp_all
  then have "X * Y \<le> 2 ^ 1000" by simp
  with p have "\<bar>val x * val y\<bar> \<le> 2 ^ 1000" by linarith
  from dmul_error [OF fx fy this]
  have fin: "is_finite (dmul x y)"
    and r: "\<bar>val (dmul x y) - val x * val y\<bar> \<le> ulp * \<bar>val x * val y\<bar> + eta" by simp_all
  have r1: "ulp * \<bar>val x * val y\<bar> \<le> ulp * (X * Y)"
    using p u0 by (rule mult_left_mono)
  have sp: "val x * val y - a * b = (val x - a) * val y + a * (val y - b)"
    by (simp add: algebra_simps)
  have "\<bar>(val x - a) * val y + a * (val y - b)\<bar> \<le> \<bar>(val x - a) * val y\<bar> + \<bar>a * (val y - b)\<bar>"
    by (rule abs_triangle_ineq)
  then have "\<bar>val x * val y - a * b\<bar> \<le> \<bar>val x - a\<bar> * \<bar>val y\<bar> + \<bar>a\<bar> * \<bar>val y - b\<bar>"
    by (simp only: sp abs_mult)
  moreover have "\<bar>val x - a\<bar> * \<bar>val y\<bar> \<le> (n1 * ulp * s1) * Y"
    using ea vy Y0 by (intro mult_mono) simp_all
  moreover have "\<bar>a\<bar> * \<bar>val y - b\<bar> \<le> (M1 * s1) * (n2 * ulp * s2)"
    using a eb nn s u0 by (intro mult_mono) simp_all
  ultimately have d: "\<bar>val x * val y - a * b\<bar> \<le> (n1 * ulp * s1) * Y + (M1 * s1) * (n2 * ulp * s2)"
    by linarith
  have "\<bar>val (dmul x y) - a * b\<bar> \<le>
        ulp * (X * Y) + ulp * (s1 * s2) + ((n1 * ulp * s1) * Y + (M1 * s1) * (n2 * ulp * s2))"
    using r r1 d eta by linarith
  also have "\<dots> = errMul M1 n1 M2 n2 * ulp * (s1 * s2)"
    by (simp add: errMul_def X_def Y_def algebra_simps)
  finally have e: "\<bar>val (dmul x y) - a * b\<bar> \<le> errMul M1 n1 M2 n2 * ulp * (s1 * s2)" .
  have "\<bar>a * b\<bar> \<le> (M1 * s1) * (M2 * s2)"
    unfolding abs_mult using a b nn s by (intro mult_mono) simp_all
  then have "\<bar>a * b\<bar> \<le> M1 * M2 * (s1 * s2)" by (simp add: algebra_simps)
  with fin e show ?thesis by (simp add: box_def)
qed

lemma box_add:
  assumes bx: "box s M1 n1 x a" and "box s M2 n2 y b"
    and s: "0 < s" and eta: "eta \<le> ulp * s"
    and rng: "M1 + M2 + (n1 + n2) * ulp \<le> 2 ^ 20" "s \<le> 2 ^ 980"
  shows "box s (M1 + M2) (errAdd M1 n1 M2 n2) (dadd x y) (a + b)"
proof -
  define T where "T = (M1 + M2 + (n1 + n2) * ulp) * s"
  have u0: "0 \<le> ulp" by (simp add: ulp_def)
  have fx: "is_finite x" and a: "\<bar>a\<bar> \<le> M1 * s" and ea: "\<bar>val x - a\<bar> \<le> n1 * ulp * s"
    using bx by (simp_all add: box_def)
  have fy: "is_finite y" and b: "\<bar>b\<bar> \<le> M2 * s" and eb: "\<bar>val y - b\<bar> \<le> n2 * ulp * s"
    using assms(2) by (simp_all add: box_def)
  have "\<bar>val x + val y\<bar> \<le> M1 * s + n1 * ulp * s + (M2 * s + n2 * ulp * s)"
    using a ea b eb by linarith
  also have "\<dots> = T" by (simp add: T_def algebra_simps)
  finally have p: "\<bar>val x + val y\<bar> \<le> T" .
  have "T \<le> 2 ^ 20 * 2 ^ 980"
    unfolding T_def using rng s p T_def by (intro mult_mono) simp_all
  then have "T \<le> 2 ^ 1000" by simp
  with p have "\<bar>val x + val y\<bar> \<le> 2 ^ 1000" by linarith
  from dadd_error [OF fx fy this]
  have fin: "is_finite (dadd x y)"
    and r: "\<bar>val (dadd x y) - (val x + val y)\<bar> \<le> ulp * \<bar>val x + val y\<bar> + eta" by simp_all
  have r1: "ulp * \<bar>val x + val y\<bar> \<le> ulp * T"
    using p u0 by (rule mult_left_mono)
  have "\<bar>val (dadd x y) - (a + b)\<bar> \<le> ulp * T + ulp * s + (n1 * ulp * s + n2 * ulp * s)"
    using r r1 ea eb eta by linarith
  also have "\<dots> = errAdd M1 n1 M2 n2 * ulp * s"
    by (simp add: errAdd_def T_def algebra_simps)
  finally have e: "\<bar>val (dadd x y) - (a + b)\<bar> \<le> errAdd M1 n1 M2 n2 * ulp * s" .
  have "\<bar>a + b\<bar> \<le> M1 * s + M2 * s" using a b by linarith
  then have "\<bar>a + b\<bar> \<le> (M1 + M2) * s" by (simp add: algebra_simps)
  with fin e show ?thesis by (simp add: box_def)
qed

lemma box_sub:
  assumes "box s M1 n1 x a" and "box s M2 n2 y b"
    and "0 < s" and "eta \<le> ulp * s"
    and "M1 + M2 + (n1 + n2) * ulp \<le> 2 ^ 20" "s \<le> 2 ^ 980"
  shows "box s (M1 + M2) (errAdd M1 n1 M2 n2) (dsub x y) (a - b)"
  using box_add [OF assms(1) box_neg [OF assms(2)] assms(3-6)] by (simp add: dsub_def)

lemma ulp_mult_le: "0 \<le> x \<Longrightarrow> x * ulp \<le> x"
  by (simp add: ulp_def mult_left_le)

lemma errAdd_bounds:
  assumes "0 \<le> M1" "0 \<le> n1" "0 \<le> M2" "0 \<le> n2"
  shows "0 \<le> errAdd M1 n1 M2 n2" and "errAdd M1 n1 M2 n2 \<le> 2 * (n1 + n2) + M1 + M2 + 1"
proof -
  define t where "t = (n1 + n2) * ulp"
  have a: "0 \<le> t" using assms by (simp add: t_def ulp_def)
  have b: "t \<le> n1 + n2" unfolding t_def using assms by (intro ulp_mult_le) simp
  have e: "errAdd M1 n1 M2 n2 = n1 + n2 + (M1 + M2 + t) + 1" by (simp add: errAdd_def t_def)
  show "0 \<le> errAdd M1 n1 M2 n2" unfolding e using assms a by linarith
  show "errAdd M1 n1 M2 n2 \<le> 2 * (n1 + n2) + M1 + M2 + 1"
    unfolding e using b by simp
qed

lemma box_p3:
  assumes t: "box s M n t1 c1" "box s M n t2 c2" "box s M n t3 c3"
    and s: "0 < s" "eta \<le> ulp * s" "s \<le> 2 ^ 980"
    and b: "0 \<le> M" "0 \<le> n" "M \<le> 2 ^ 10" "n \<le> 2 ^ 15"
  shows "box s (3 * M) (err3 M n) (dsub (dadd t1 t2) t3) (c1 + c2 - c3)"
    and "box s (3 * M) (err3 M n) (dsub (dsub t1 t2) t3) (c1 - c2 - c3)"
    and "box s (3 * M) (err3 M n) (dadd (dadd t1 t2) t3) (c1 + c2 + c3)"
proof -
  have r1: "M + M + (n + n) * ulp \<le> 2 ^ 20"
    using b by (simp add: ulp_def)
  have r2: "M + M + M + (errAdd M n M n + n) * ulp \<le> 2 ^ 20"
  proof -
    note e = errAdd_bounds [OF b(1) b(2) b(1) b(2)]
    have "(errAdd M n M n + n) * ulp \<le> errAdd M n M n + n"
      using e(1) b(2) by (intro ulp_mult_le) simp
    with e(2) b show ?thesis by simp
  qed
  have m3: "M + M + M = 3 * M" by simp
  note a12 = box_add [OF t(1) t(2) s(1,2) r1 s(3)]
  note s12 = box_sub [OF t(1) t(2) s(1,2) r1 s(3)]
  show "box s (3 * M) (err3 M n) (dsub (dadd t1 t2) t3) (c1 + c2 - c3)"
    using box_sub [OF a12 t(3) s(1,2) r2 s(3)] by (simp only: m3 err3_def)
  show "box s (3 * M) (err3 M n) (dsub (dsub t1 t2) t3) (c1 - c2 - c3)"
    using box_sub [OF s12 t(3) s(1,2) r2 s(3)] by (simp only: m3 err3_def)
  show "box s (3 * M) (err3 M n) (dadd (dadd t1 t2) t3) (c1 + c2 + c3)"
    using box_add [OF a12 t(3) s(1,2) r2 s(3)] by (simp only: m3 err3_def)
qed

lemma box_p4:
  assumes t: "box s M n t1 c1" "box s M n t2 c2" "box s M n t3 c3" "box s M n t4 c4"
    and s: "0 < s" "eta \<le> ulp * s" "s \<le> 2 ^ 980"
    and b: "0 \<le> M" "0 \<le> n" "M \<le> 2 ^ 10" "n \<le> 2 ^ 15"
  shows "box s (4 * M) (err4 M n) (dsub (dadd (dadd t1 t2) t3) t4) (c1 + c2 + c3 - c4)"
    and "box s (4 * M) (err4 M n) (dsub (dsub (dsub t1 t2) t3) t4) (c1 - c2 - c3 - c4)"
proof -
  have r3: "3 * M + M + (err3 M n + n) * ulp \<le> 2 ^ 20"
  proof -
    note e = errAdd_bounds [OF b(1) b(2) b(1) b(2)]
    have m2: "0 \<le> M + M" using b(1) by simp
    note f = errAdd_bounds [OF m2 e(1) b(1) b(2)]
    have "(err3 M n + n) * ulp \<le> err3 M n + n"
      using f(1) b(2) unfolding err3_def by (intro ulp_mult_le) simp
    with e(2) f(2) b show ?thesis unfolding err3_def by simp
  qed
  have m4: "3 * M + M = 4 * M" by simp
  have e4: "errAdd (3 * M) (err3 M n) M n = err4 M n"
    by (simp add: err4_def)
  note p3 = box_p3 [OF t(1) t(2) t(3) s b]
  show "box s (4 * M) (err4 M n) (dsub (dadd (dadd t1 t2) t3) t4) (c1 + c2 + c3 - c4)"
    using box_sub [OF p3(3) t(4) s(1,2) r3 s(3)] by (simp only: m4 e4)
  show "box s (4 * M) (err4 M n) (dsub (dsub (dsub t1 t2) t3) t4) (c1 - c2 - c3 - c4)"
    using box_sub [OF p3(2) t(4) s(1,2) r3 s(3)] by (simp only: m4 e4)
qed

text \<open>
  On finite doubles \<^verbatim>\<open>>\<close> compares the real values, so the loop on doubles selects
  what the loop on their values selects.
\<close>

lemma val_align:
  "val (Fin m e) = of_int (m * 2 ^ nat (e - min e f)) * pow2 (min e f)"
  "val (Fin n f) = of_int (n * 2 ^ nat (f - min e f)) * pow2 (min e f)"
proof -
  have "pow2 e = pow2 (int (nat (e - min e f)) + min e f)" by simp
  also have "\<dots> = pow2 (int (nat (e - min e f))) * pow2 (min e f)" by (rule pow2_add)
  finally have pe: "pow2 e = 2 ^ nat (e - min e f) * pow2 (min e f)" by (simp only: pow2_nat)
  have "pow2 f = pow2 (int (nat (f - min e f)) + min e f)" by simp
  also have "\<dots> = pow2 (int (nat (f - min e f))) * pow2 (min e f)" by (rule pow2_add)
  finally have pf: "pow2 f = 2 ^ nat (f - min e f) * pow2 (min e f)" by (simp only: pow2_nat)
  show "val (Fin m e) = of_int (m * 2 ^ nat (e - min e f)) * pow2 (min e f)"
    by (simp add: algebra_simps) (simp add: pe)
  show "val (Fin n f) = of_int (n * 2 ^ nat (f - min e f)) * pow2 (min e f)"
    by (simp add: algebra_simps) (simp add: pf)
qed

lemma dgt_val:
  assumes "is_finite x" and "is_finite y"
  shows "dgt x y \<longleftrightarrow> val y < val x"
proof -
  from assms(1) obtain m e where x: "x = Fin m e" by (cases x) simp_all
  from assms(2) obtain n f where y: "y = Fin n f" by (cases y) simp_all
  have "val y < val x \<longleftrightarrow>
        real_of_int (n * 2 ^ nat (f - min e f)) * pow2 (min e f)
          < real_of_int (m * 2 ^ nat (e - min e f)) * pow2 (min e f)"
    unfolding x y by (simp only: val_align [of m e f] val_align(2) [of n f e])
  also have "\<dots> \<longleftrightarrow> real_of_int (n * 2 ^ nat (f - min e f)) < real_of_int (m * 2 ^ nat (e - min e f))"
    using pow2_pos [of "min e f"] by (simp only: mult_less_cancel_right_pos)
  also have "\<dots> \<longleftrightarrow> n * 2 ^ nat (f - min e f) < m * 2 ^ nat (e - min e f)"
    by (simp only: of_int_less_iff)
  finally show ?thesis by (simp add: x y)
qed

lemma maxDotLoopD_val:
  assumes "list_all is_finite ds"
  shows "maxDotLoopD ds i m = maxDotLoop (map val ds) i m"
  using assms
proof (induction ds i m rule: maxDotLoopD.induct)
  case (1 ds i m)
  note fin = "1.prems"
  have gt: "js_gtD (elemAt ds i) (elemAt ds m) = js_gt (elemAt (map val ds) i) (elemAt (map val ds) m)"
  proof (cases "i < length ds \<and> m < length ds")
    case True
    moreover from fin have "\<forall>j<length ds. is_finite (ds ! j)"
      by (simp add: list_all_length)
    ultimately have "is_finite (ds ! i)" "is_finite (ds ! m)"
      by blast+
    then show ?thesis using True by (simp add: elemAt_def dgt_val)
  next
    case False
    then show ?thesis by (auto simp: elemAt_def)
  qed
  show ?case
  proof (cases "i < length ds")
    case True
    then show ?thesis
      using "1.IH" [OF True fin] gt
      by (simp add: maxDotLoopD.simps [of ds i m] maxDotLoop.simps [of "map val ds" i m])
  next
    case False
    then show ?thesis
      by (simp add: maxDotLoopD.simps [of ds i m] maxDotLoop.simps [of "map val ds" i m])
  qed
qed

text \<open>
  When the entries of a second array are within \<open>d\<close> of \<open>k\<close> times those of the first
  and the winner of the first leads by more than \<open>2 d / k\<close>, both arrays have the same
  winner.
\<close>

lemma maxDotLoop_margin:
  assumes len: "length ds' = length ds" "0 < length ds"
    and k: "0 < (k::real)"
    and dev: "\<forall>j<length ds. \<bar>ds' ! j - k * ds ! j\<bar> \<le> d"
    and mar: "\<forall>j<length ds. j \<noteq> maxDotLoop ds 1 0 \<longrightarrow>
                k * ds ! j + 2 * d < k * ds ! maxDotLoop ds 1 0"
  shows "maxDotLoop ds' 1 0 = maxDotLoop ds 1 0"
proof -
  define i where "i = maxDotLoop ds 1 0"
  define r where "r = maxDotLoop ds' 1 0"
  have i: "i < length ds"
    unfolding i_def using maxDotLoop_bound [of 0 ds 1] len by simp
  have sp: "r < length ds'" "\<forall>j<length ds'. ds' ! j \<le> ds' ! r"
    unfolding r_def using maxDotLoop_spec [of 0 1 ds'] len by simp_all
  have "r = i"
  proof (rule ccontr)
    assume ne: "r \<noteq> i"
    have rl: "r < length ds" using sp(1) len by simp
    from mar rl ne have m: "k * ds ! r + 2 * d < k * ds ! i" by (simp add: i_def)
    from dev rl have a: "\<bar>ds' ! r - k * ds ! r\<bar> \<le> d" by simp
    from dev i have b: "\<bar>ds' ! i - k * ds ! i\<bar> \<le> d" by simp
    from sp(2) i len have c: "ds' ! i \<le> ds' ! r" by simp
    from m a b c show False by linarith
  qed
  then show ?thesis by (simp add: r_def i_def)
qed

text \<open>
  In exact arithmetic, composing with a quaternion \<open>(0, y, 0, w)\<close> multiplies the six dot
  products by \<open>y\<^sup>2 + w\<^sup>2\<close>.
\<close>

lemma dots_mult_yaw:
  assumes "qx R = 0" and "qz R = 0"
  shows "dots (mult R Q) = map ((*) (qy R * qy R + qw R * qw R)) (dots Q)"
proof -
  let ?r = "mult R Q"
  have r: "qx ?r = qw R * qx Q + qy R * qz Q" "qy ?r = qy R * qw Q + qw R * qy Q"
          "qz ?r = qw R * qz Q - qy R * qx Q" "qw ?r = qw R * qw Q - qy R * qy Q"
    using assms by (simp_all add: mult_def)
  show ?thesis
    unfolding dots_explicit [of ?r] r dots_explicit [of Q]
    by (simp add: algebra_simps)
qed

section \<open>Error of the computed dot products\<close>

lemma box_mul_num:
  assumes "box s1 M1 n1 x a" and "box s2 M2 n2 y b"
    and "0 < s1" "0 < s2" and "0 \<le> M1" "0 \<le> n1" "0 \<le> M2" "0 \<le> n2"
    and "eta \<le> ulp * (s1 * s2)"
    and "(M1 + n1 * ulp) * (M2 + n2 * ulp) \<le> 2 ^ 20" "s1 * s2 \<le> 2 ^ 980"
    and "errMul M1 n1 M2 n2 \<le> P"
  shows "box (s1 * s2) (M1 * M2) P (dmul x y) (a * b)"
proof -
  have "0 \<le> s1 * s2" using assms(3,4) by simp
  from box_weaken [OF box_mul [OF assms(1-11)] order_refl assms(12) this]
  show ?thesis .
qed

lemma eta_le_ulp: "eta \<le> ulp * 1"
  by (simp add: eta_def ulp_def)

lemma box_consts:
  "box 1 1 0 (Fin 0 0) 0" "box 1 1 0 (Fin 1 0) 1" "box 1 1 0 (Fin (- 1) 0) (- 1)"
  by (simp_all add: box_def pow2_def)

text \<open>
  The composition of two quaternions with components of magnitude at most 1: each computed
  component is within \<open>33 ulp\<close> of the exact one.
\<close>

lemma multD_box:
  assumes a: "qbox 1 1 2 a A" and b: "qbox 1 1 0 b B"
  shows "qbox 1 4 33 (multD a b) (mult A B)"
proof -
  have mul: "box 1 1 5 (dmul x u) (y * w)" if "box 1 1 2 x y" and "box 1 1 0 u w" for x y u w
    using box_mul_num [OF that, of 5] eta_le_ulp by (simp add: errMul_def ulp_def)
  have e: "err4 1 5 \<le> 33"
    by (simp add: err4_def err3_def errAdd_def ulp_def)
  have s1: "(0::real) < 1" "eta \<le> ulp * 1" "(1::real) \<le> 2 ^ 980"
    "(0::real) \<le> 1" "(0::real) \<le> 5" "(1::real) \<le> 2 ^ 10" "(5::real) \<le> 2 ^ 15"
    using eta_le_ulp by simp_all
  have p: "box 1 4 33 (dsub (dadd (dadd t1 t2) t3) t4) (c1 + c2 + c3 - c4)"
          "box 1 4 33 (dsub (dsub (dsub t1 t2) t3) t4) (c1 - c2 - c3 - c4)"
    if "box 1 1 5 t1 c1" "box 1 1 5 t2 c2" "box 1 1 5 t3 c3" "box 1 1 5 t4 c4"
    for t1 t2 t3 t4 c1 c2 c3 c4
    using box_weaken [OF box_p4(1) [OF that s1] _ e]
          box_weaken [OF box_p4(2) [OF that s1] _ e]
    by simp_all
  from a have ax: "box 1 1 2 (dqx a) (qx A)" and ay: "box 1 1 2 (dqy a) (qy A)"
    and az: "box 1 1 2 (dqz a) (qz A)" and aw: "box 1 1 2 (dqw a) (qw A)"
    by (simp_all add: qbox_def)
  from b have bx: "box 1 1 0 (dqx b) (qx B)" and bY: "box 1 1 0 (dqy b) (qy B)"
    and bz: "box 1 1 0 (dqz b) (qz B)" and bw: "box 1 1 0 (dqw b) (qw B)"
    by (simp_all add: qbox_def)
  have "box 1 4 33 (dqx (multD a b)) (qx (mult A B))"
    unfolding multD_def mult_def
    using p(1) [OF mul [OF ax bw] mul [OF aw bx] mul [OF ay bz] mul [OF az bY]] by simp
  moreover have "box 1 4 33 (dqy (multD a b)) (qy (mult A B))"
    unfolding multD_def mult_def
    using p(1) [OF mul [OF ay bw] mul [OF aw bY] mul [OF az bx] mul [OF ax bz]] by simp
  moreover have "box 1 4 33 (dqz (multD a b)) (qz (mult A B))"
    unfolding multD_def mult_def
    using p(1) [OF mul [OF az bw] mul [OF aw bz] mul [OF ax bY] mul [OF ay bx]] by simp
  moreover have "box 1 4 33 (dqw (multD a b)) (qw (mult A B))"
    unfolding multD_def mult_def
    using p(2) [OF mul [OF aw bw] mul [OF ax bx] mul [OF ay bY] mul [OF az bz]] by simp
  ultimately show ?thesis by (simp add: qbox_def)
qed

text \<open>
  The dot product with world up of a rotated face direction: for a quaternion at scale
  \<open>s\<close> the computed value is within \<open>14925 ulp s\<^sup>2\<close> of the exact one.
\<close>

lemma dotD_vmultD_box:
  assumes q: "qbox s 4 33 q Q" and v: "vbox 1 1 0 v V"
    and s: "0 < s" "eta \<le> ulp * s" "eta \<le> ulp * (s * s)" "s \<le> 2 ^ 980" "s * s \<le> 2 ^ 980"
  shows "box (s * s) 576 14925 (dotD (vmultD q v) upVectorD) (dot (vmult Q V) upVector)"
proof -
  have ss: "0 < s * s" using s(1) by simp
  have mulQV: "box s 4 39 (dmul x u) (y * w)" if "box s 4 33 x y" and "box 1 1 0 u w" for x y u w
    using box_mul_num [OF that, of 39] s by (simp add: errMul_def ulp_def)
  have mulIQ: "box (s * s) 48 1006 (dmul x u) (y * w)"
    if "box s 12 140 x y" and "box s 4 33 u w" for x y u w
    using box_mul_num [OF that, of 1006] s by (simp add: errMul_def ulp_def)
  have mulTU: "box (s * s) 192 4654 (dmul x u) (y * w)"
    if "box (s * s) 192 4460 x y" and "box 1 1 0 u w" for x y u w
    using box_mul_num [OF that, of 4654] s ss by (simp add: errMul_def ulp_def)
  have e1: "err3 4 39 \<le> 140" by (simp add: err3_def errAdd_def ulp_def)
  have e2: "err4 48 1006 \<le> 4460" by (simp add: err4_def err3_def errAdd_def ulp_def)
  have e3: "err3 192 4654 \<le> 14925" by (simp add: err3_def errAdd_def ulp_def)
  have c1: "(0::real) \<le> 4" "(0::real) \<le> 39" "(4::real) \<le> 2 ^ 10" "(39::real) \<le> 2 ^ 15"
    by simp_all
  have c2: "(0::real) \<le> 48" "(0::real) \<le> 1006" "(48::real) \<le> 2 ^ 10" "(1006::real) \<le> 2 ^ 15"
    by simp_all
  have c3: "(0::real) \<le> 192" "(0::real) \<le> 4654" "(192::real) \<le> 2 ^ 10" "(4654::real) \<le> 2 ^ 15"
    by simp_all
  have p3a: "box s 12 140 (dsub (dadd t1 t2) t3) (a1 + a2 - a3)"
    and p3b: "box s 12 140 (dsub (dsub t1 t2) t3) (a1 - a2 - a3)"
    if "box s 4 39 t1 a1" "box s 4 39 t2 a2" "box s 4 39 t3 a3" for t1 t2 t3 a1 a2 a3
    using box_weaken [OF box_p3(1) [OF that s(1,2,4) c1] _ e1]
          box_weaken [OF box_p3(2) [OF that s(1,2,4) c1] _ e1] s(1)
    by simp_all
  have p4a: "box (s * s) 192 4460 (dsub (dadd (dadd t1 t2) t3) t4) (a1 + a2 + a3 - a4)"
    if "box (s * s) 48 1006 t1 a1" "box (s * s) 48 1006 t2 a2" "box (s * s) 48 1006 t3 a3"
       "box (s * s) 48 1006 t4 a4" for t1 t2 t3 t4 a1 a2 a3 a4
    using box_weaken [OF box_p4(1) [OF that ss s(3,5) c2] _ e2] ss by simp
  have p3c: "box (s * s) 576 14925 (dadd (dadd t1 t2) t3) (a1 + a2 + a3)"
    if "box (s * s) 192 4654 t1 a1" "box (s * s) 192 4654 t2 a2" "box (s * s) 192 4654 t3 a3"
    for t1 t2 t3 a1 a2 a3
    using box_weaken [OF box_p3(3) [OF that ss s(3,5) c3] _ e3] ss by simp
  from q have qx: "box s 4 33 (dqx q) (qx Q)" and qy: "box s 4 33 (dqy q) (qy Q)"
    and qz: "box s 4 33 (dqz q) (qz Q)" and qw: "box s 4 33 (dqw q) (qw Q)"
    by (simp_all add: qbox_def)
  note nx = box_neg [OF qx] and ny = box_neg [OF qy] and nz = box_neg [OF qz]
  from v have vx: "box 1 1 0 (dvx v) (vx V)" and vy: "box 1 1 0 (dvy v) (vy V)"
    and vz: "box 1 1 0 (dvz v) (vz V)"
    by (simp_all add: vbox_def)
  define ix where
    "ix = dsub (dadd (dmul (dqw q) (dvx v)) (dmul (dqy q) (dvz v))) (dmul (dqz q) (dvy v))"
  define iy where
    "iy = dsub (dadd (dmul (dqw q) (dvy v)) (dmul (dqz q) (dvx v))) (dmul (dqx q) (dvz v))"
  define iz where
    "iz = dsub (dadd (dmul (dqw q) (dvz v)) (dmul (dqx q) (dvy v))) (dmul (dqy q) (dvx v))"
  define iw where
    "iw = dsub (dsub (dmul (dneg (dqx q)) (dvx v)) (dmul (dqy q) (dvy v))) (dmul (dqz q) (dvz v))"
  define rx where "rx = qw Q * vx V + qy Q * vz V - qz Q * vy V"
  define ry where "ry = qw Q * vy V + qz Q * vx V - qx Q * vz V"
  define rz where "rz = qw Q * vz V + qx Q * vy V - qy Q * vx V"
  define rw where "rw = - qx Q * vx V - qy Q * vy V - qz Q * vz V"
  have bix: "box s 12 140 ix rx"
    unfolding ix_def rx_def by (rule p3a [OF mulQV [OF qw vx] mulQV [OF qy vz] mulQV [OF qz vy]])
  have biy: "box s 12 140 iy ry"
    unfolding iy_def ry_def by (rule p3a [OF mulQV [OF qw vy] mulQV [OF qz vx] mulQV [OF qx vz]])
  have biz: "box s 12 140 iz rz"
    unfolding iz_def rz_def by (rule p3a [OF mulQV [OF qw vz] mulQV [OF qx vy] mulQV [OF qy vx]])
  have biw: "box s 12 140 iw rw"
    unfolding iw_def rw_def by (rule p3b [OF mulQV [OF nx vx] mulQV [OF qy vy] mulQV [OF qz vz]])
  define tx where
    "tx = dsub (dadd (dadd (dmul ix (dqw q)) (dmul iw (dneg (dqx q)))) (dmul iy (dneg (dqz q))))
               (dmul iz (dneg (dqy q)))"
  define ty where
    "ty = dsub (dadd (dadd (dmul iy (dqw q)) (dmul iw (dneg (dqy q)))) (dmul iz (dneg (dqx q))))
               (dmul ix (dneg (dqz q)))"
  define tz where
    "tz = dsub (dadd (dadd (dmul iz (dqw q)) (dmul iw (dneg (dqz q)))) (dmul ix (dneg (dqy q))))
               (dmul iy (dneg (dqx q)))"
  define sx where "sx = rx * qw Q + rw * - qx Q + ry * - qz Q - rz * - qy Q"
  define sy where "sy = ry * qw Q + rw * - qy Q + rz * - qx Q - rx * - qz Q"
  define sz where "sz = rz * qw Q + rw * - qz Q + rx * - qy Q - ry * - qx Q"
  have btx: "box (s * s) 192 4460 tx sx"
    unfolding tx_def sx_def
    by (rule p4a [OF mulIQ [OF bix qw] mulIQ [OF biw nx] mulIQ [OF biy nz] mulIQ [OF biz ny]])
  have bty: "box (s * s) 192 4460 ty sy"
    unfolding ty_def sy_def
    by (rule p4a [OF mulIQ [OF biy qw] mulIQ [OF biw ny] mulIQ [OF biz nx] mulIQ [OF bix nz]])
  have btz: "box (s * s) 192 4460 tz sz"
    unfolding tz_def sz_def
    by (rule p4a [OF mulIQ [OF biz qw] mulIQ [OF biw nz] mulIQ [OF bix ny] mulIQ [OF biy nx]])
  have "box (s * s) 576 14925
          (dadd (dadd (dmul tx (Fin 0 0)) (dmul ty (Fin 1 0))) (dmul tz (Fin 0 0)))
          (sx * 0 + sy * 1 + sz * 0)"
    by (rule p3c [OF mulTU [OF btx box_consts(1)] mulTU [OF bty box_consts(2)]
          mulTU [OF btz box_consts(1)]])
  moreover have "dotD (vmultD q v) upVectorD
                 = dadd (dadd (dmul tx (Fin 0 0)) (dmul ty (Fin 1 0))) (dmul tz (Fin 0 0))"
    by (simp add: dotD_def vmultD_def upVectorD_def Vec3D_def Let_def
        tx_def ty_def tz_def ix_def iy_def iz_def iw_def)
  moreover have "dot (vmult Q V) upVector = sx * 0 + sy * 1 + sz * 0"
    by (simp add: dot_def vmult_def upVector_def Vec3_def Let_def
        sx_def sy_def sz_def rx_def ry_def rz_def rw_def)
  ultimately show ?thesis by simp
qed

lemma faces_vbox:
  assumes "j < 6"
  shows "vbox 1 1 0 (facesD ! j) (faces ! j)"
proof -
  from less_6_cases [OF assms] show ?thesis
    by (elim disjE) (simp_all add: facesD_def faces_def vbox_def Vec3D_def Vec3_def box_consts)
qed

lemma length_dotsD: "length (dotsD q) = 6"
  by (simp add: dotsD_def faceVectorsD_def facesD_def)

lemma dotsD_box:
  assumes "qbox s 4 33 q Q"
    and "0 < s" "eta \<le> ulp * s" "eta \<le> ulp * (s * s)" "s \<le> 2 ^ 980" "s * s \<le> 2 ^ 980"
    and "j < 6"
  shows "box (s * s) 576 14925 (dotsD q ! j) (dots Q ! j)"
proof -
  have lf: "length facesD = 6" "length faces = 6" by (simp_all add: facesD_def faces_def)
  have a: "dotsD q ! j = dotD (vmultD q (facesD ! j)) upVectorD"
    using assms(7) lf by (simp add: dotsD_def faceVectorsD_def)
  have b: "dots Q ! j = dot (vmult Q (faces ! j)) upVector"
    using assms(7) lf by (simp add: dots_def faceVectors_def)
  show ?thesis
    unfolding a b by (rule dotD_vmultD_box [OF assms(1) faces_vbox [OF assms(7)] assms(2-6)])
qed

lemma resolverD_margin:
  assumes fin: "list_all is_finite (dotsD q)" "list_all is_finite (dotsD q')"
    and k: "0 < k"
    and dev: "\<forall>j<6. \<bar>val (dotsD q' ! j) - k * val (dotsD q ! j)\<bar> \<le> d"
    and mar: "\<forall>j<6. j \<noteq> maxDotIndexD q \<longrightarrow>
                k * val (dotsD q ! j) + 2 * d < k * val (dotsD q ! maxDotIndexD q)"
  shows "resolverD q' = resolverD q"
proof -
  let ?ds = "map val (dotsD q)" and ?ds' = "map val (dotsD q')"
  have i: "maxDotIndexD q = maxDotLoop ?ds 1 0"
    by (simp add: maxDotIndexD_def maxDotLoopD_val [OF fin(1)])
  have i': "maxDotIndexD q' = maxDotLoop ?ds' 1 0"
    by (simp add: maxDotIndexD_def maxDotLoopD_val [OF fin(2)])
  have len: "length ?ds' = length ?ds" "0 < length ?ds" by (simp_all add: length_dotsD)
  have dev': "\<forall>j<length ?ds. \<bar>?ds' ! j - k * ?ds ! j\<bar> \<le> d"
    using dev by (simp add: length_dotsD)
  have mar': "\<forall>j<length ?ds. j \<noteq> maxDotLoop ?ds 1 0 \<longrightarrow>
                k * ?ds ! j + 2 * d < k * ?ds ! maxDotLoop ?ds 1 0"
  proof (intro allI impI)
    fix j assume j: "j < length ?ds" and ne: "j \<noteq> maxDotLoop ?ds 1 0"
    have m: "maxDotLoop ?ds 1 0 < 6"
      using maxDotLoop_bound [of 0 ?ds 1] by (simp add: length_dotsD)
    from j have j6: "j < 6" by (simp add: length_dotsD)
    from mar j6 ne have "k * val (dotsD q ! j) + 2 * d < k * val (dotsD q ! maxDotIndexD q)"
      by (simp add: i)
    then show "k * ?ds ! j + 2 * d < k * ?ds ! maxDotLoop ?ds 1 0"
      using j6 m by (simp add: i length_dotsD)
  qed
  from maxDotLoop_margin [OF len k dev' mar']
  show ?thesis by (simp add: resolverD_def i i')
qed

lemma bounded_quat_box:
  assumes "bounded_quat q"
  shows "qbox 1 4 33 q (valQ q)"
proof -
  have "box 1 4 33 x (val x)" if "is_finite x" "\<bar>val x\<bar> \<le> 1" for x
    using box_weaken [OF box_exact [of x 1 1], of 4 33] that by simp
  then show ?thesis using assms by (simp add: bounded_quat_def qbox_def valQ_def)
qed

lemma bounded_quat_box0:
  assumes "bounded_quat q"
  shows "qbox 1 1 0 q (valQ q)"
proof -
  have "box 1 1 0 x (val x)" if "is_finite x" "\<bar>val x\<bar> \<le> 1" for x
    using box_exact [of x 1 1] that by simp
  then show ?thesis using assms by (simp add: bounded_quat_def qbox_def valQ_def)
qed

lemma qbox_weaken:
  assumes "qbox s M n q Q" and "M \<le> M'" and "n \<le> n'" and "0 \<le> s"
  shows "qbox s M' n' q Q"
  using assms box_weaken [OF _ assms(2-4)] by (simp add: qbox_def)

lemma dotsD_finite:
  assumes "\<forall>j<6. box s M n (dotsD q ! j) (a j)"
  shows "list_all is_finite (dotsD q)"
  using assms by (simp add: list_all_length length_dotsD box_def)


section \<open>Evaluation at concrete doubles\<close>

lemma dotsD_zDownQuatD:
  "dotsD zDownQuatD = [Fin 0 (- 2), Fin 0 (- 2), Fin 0 (- 2), Fin 0 (- 2), Fin (- 4) (- 2), Fin 4 (- 2)]"
  by (simp add: dotsD_eval zDownQuatD_def double_eval)

lemma dotsD_edgeQuatD:
  "dotsD edgeQuatD =
     [Fin (- 6252931714035068) (- 53), Fin 6252931714035068 (- 53),
      Fin (- 3424224510066822) (- 54), Fin 3424224510066822 (- 54),
      Fin (- 6252931714035068) (- 53), Fin 6252931714035068 (- 53)]"
  by (simp add: dotsD_eval edgeQuatD_def double_eval)

lemma yaw_edgeQuatD:
  "multD (setFromAxisAngleD upVectorD sinD cosD) edgeQuatD =
     QuatD (Fin 4661329235396991 (- 53)) (Fin 4583572877748355 (- 57))
           (Fin (- 5152426329441457) (- 53)) (Fin 5724690746155762 (- 53))"
  by (simp add: dotsD_eval edgeQuatD_def sinD_def cosD_def double_eval)

lemma dotsD_yaw_edgeQuatD:
  "dotsD (multD (setFromAxisAngleD upVectorD sinD cosD) edgeQuatD) =
     [Fin (- 6252931714035068) (- 53), Fin 6252931714035068 (- 53),
      Fin (- 3424224510066821) (- 54), Fin 3424224510066821 (- 54),
      Fin (- 6252931714035069) (- 53), Fin 6252931714035069 (- 53)]"
  unfolding yaw_edgeQuatD by (simp add: dotsD_eval double_eval)

lemma dotsD_tiny:
  "dotsD (scaleQuatD tinyD zDownQuatD) =
     [Fin 0 (- 1074), Fin 0 (- 1074), Fin 0 (- 1074), Fin 0 (- 1074), Fin 0 (- 1074),
      Fin 0 (- 1074)]"
  by (simp add: dotsD_eval zDownQuatD_def tinyD_def double_eval)

lemma resolverD_values:
  "resolverD zDownQuatD = Some 4" "resolverD edgeQuatD = Some 6"
  "resolverD (multD (setFromAxisAngleD upVectorD sinD cosD) edgeQuatD) = Some 4"
  "resolverD (scaleQuatD tinyD zDownQuatD) = Some 1"
  by (simp_all add: resolverD_eval dotsD_zDownQuatD dotsD_edgeQuatD dotsD_yaw_edgeQuatD
      dotsD_tiny)


section \<open>Properties of the orientation resolver\<close>

text \<open>
  C1. Whenever the die rests flat on face \<open>i\<close>, that is, the dot product of face \<open>i\<close>
  with world up is within a tolerance \<open>eps < 1\<close> of \<open>1\<close> and the other five dot
  products are at most \<open>0\<close>, the resolver returns the entry of the face-to-symbol table at
  index \<open>i\<close>. This holds for every quaternion, of unit length or not.
\<close>

theorem resolver_flat_face:
  assumes "i < 6" and "0 \<le> eps" and "eps < 1"
    and "\<bar>dots q ! i - 1\<bar> \<le> eps"
    and "\<forall>j<6. j \<noteq> i \<longrightarrow> dots q ! j \<le> 0"
  shows "resolver q = Some (faceMap ! i)"
proof -
  have pos: "0 < dots q ! i" using assms(3,4) by linarith
  have "dots q ! i \<le> dots q ! maxDotIndex q"
    using maxDotIndex_spec [of q] assms(1) by simp
  with pos have "0 < dots q ! maxDotIndex q" by linarith
  then have "maxDotIndex q = i"
    using assms(5) maxDotIndex_bound [of q] by force
  then show ?thesis by (simp add: resolver_eq)
qed

text \<open>
  C1, at concrete inputs: the identity orientation rests on face 2 exactly, and the
  slightly shortened quaternion \<open>(0, 0, 0, 9/10)\<close> rests on face 2 within tolerance
  \<open>1/5\<close>; both resolve to symbol 2. The orientation with local \<open>+X\<close> up resolves to
  symbol 1.
\<close>

theorem resolver_flat_face_witness:
  "unit_quat identityQuat \<and> \<bar>dots identityQuat ! 2 - 1\<bar> \<le> 0 \<and>
   resolver identityQuat = Some 2 \<and>
   \<bar>dots (Quat 0 0 0 (9 / 10)) ! 2 - 1\<bar> \<le> 1 / 5 \<and>
   resolver (Quat 0 0 0 (9 / 10)) = Some 2 \<and>
   unit_quat xUpQuat \<and> resolver xUpQuat = Some 1"
proof -
  have d: "dots (Quat 0 0 0 (9 / 10)) = [0, 0, 81 / 100, - (81 / 100), 0, 0]"
    by (simp add: dots_explicit Quat_def)
  have h1: "\<forall>j<6. j \<noteq> 2 \<longrightarrow> dots identityQuat ! j \<le> 0"
    by (simp add: all_less_6 dots_identityQuat)
  have h2: "\<forall>j<6. j \<noteq> 2 \<longrightarrow> dots (Quat 0 0 0 (9 / 10)) ! j \<le> 0"
    by (simp add: all_less_6 d)
  have h3: "\<forall>j<6. j \<noteq> 0 \<longrightarrow> dots xUpQuat ! j \<le> 0"
    by (simp add: all_less_6 dots_xUpQuat)
  have r1: "resolver identityQuat = Some (faceMap ! 2)"
    using resolver_flat_face [of 2 0 identityQuat] h1 by (simp add: dots_identityQuat)
  have r2: "resolver (Quat 0 0 0 (9 / 10)) = Some (faceMap ! 2)"
    using resolver_flat_face [of 2 "1 / 5" "Quat 0 0 0 (9 / 10)"] h2 by (simp add: d)
  have r3: "resolver xUpQuat = Some (faceMap ! 0)"
    using resolver_flat_face [of 0 0 xUpQuat] h3 by (simp add: dots_xUpQuat)
  show ?thesis
    using r1 r2 r3
    by (simp add: faceMap_def unit_quat_def identityQuat_def xUpQuat_def Quat_def
        dots_explicit)
qed

text \<open>
  C2. The face-to-symbol table sends index 0 to 1, 1 to 6, 2 to 2, 3 to 5, 4 to 3 and 5
  to 4; and when the three dice have winning face indices 0, 2 and 5, in this order, the
  reveal callback stores the round result (1, 2, 4).
\<close>

theorem faceMap_round_result:
  assumes "map quaternion (diceBodies s) = [q0, q1, q2]"
    and "maxDotIndex q0 = 0" and "maxDotIndex q1 = 2" and "maxDotIndex q2 = 5"
  shows "map (elemAt faceMap) [0, 1, 2, 3, 4, 5]
           = [Some 1, Some 6, Some 2, Some 5, Some 3, Some 4] \<and>
         results (timeout RevealTimer s) = [Some 1, Some 2, Some 4]"
proof -
  have "results (timeout RevealTimer s) = map resolver (map quaternion (diceBodies s))"
    by (simp add: comp_def)
  also have "\<dots> = [resolver q0, resolver q1, resolver q2]"
    using assms(1) by simp
  also have "\<dots> = [Some 1, Some 2, Some 4]"
    using assms(2-4) by (simp add: resolver_def elemAt_def faceMap_def)
  finally show ?thesis by (simp add: elemAt_def faceMap_def)
qed

text \<open>
  C2, at a concrete input: dice lying with local \<open>+X\<close>, \<open>+Y\<close> and \<open>-Z\<close> up have the
  winning indices 0, 2 and 5 and give the round result (1, 2, 4).
\<close>

theorem faceMap_round_result_witness:
  "maxDotIndex xUpQuat = 0 \<and> maxDotIndex identityQuat = 2 \<and> maxDotIndex zDownQuat = 5 \<and>
   results (timeout RevealTimer
     (initialGame\<lparr>diceBodies := [newBody\<lparr>quaternion := xUpQuat\<rparr>, newBody,
                                  newBody\<lparr>quaternion := zDownQuat\<rparr>]\<rparr>))
     = [Some 1, Some 2, Some 4]"
  using faceMap_round_result
    [of "initialGame\<lparr>diceBodies := [newBody\<lparr>quaternion := xUpQuat\<rparr>, newBody,
                                     newBody\<lparr>quaternion := zDownQuat\<rparr>]\<rparr>"
        xUpQuat identityQuat zDownQuat]
  by (simp add: maxDotIndex_eval newBody_def)

text \<open>
  C3. For every quaternion the resolver selects a face index whose dot product with world
  up is the maximum of the six, and among the indices that tie at the maximum it selects
  the first in the order \<open>+X, -X, +Y, -Y, +Z, -Z\<close>: every earlier face is strictly
  lower, and every face that attains the maximum has an index at least the selected one.
\<close>

theorem resolver_first_maximum:
  "maxDotIndex q < 6 \<and>
   resolver q = Some (faceMap ! maxDotIndex q) \<and>
   dots q ! maxDotIndex q = Max (set (dots q)) \<and>
   (\<forall>j<maxDotIndex q. dots q ! j < Max (set (dots q))) \<and>
   (\<forall>j<6. dots q ! j = Max (set (dots q)) \<longrightarrow> maxDotIndex q \<le> j)"
proof -
  have lower: "\<forall>j<maxDotIndex q. dots q ! j < Max (set (dots q))"
    using maxDotIndex_spec [of q] by (simp add: maxDotIndex_Max)
  have "\<forall>j<6. dots q ! j = Max (set (dots q)) \<longrightarrow> maxDotIndex q \<le> j"
  proof (intro allI impI)
    fix j assume "j < 6" and eq: "dots q ! j = Max (set (dots q))"
    show "maxDotIndex q \<le> j"
    proof (rule ccontr)
      assume "\<not> maxDotIndex q \<le> j"
      then have "j < maxDotIndex q" by simp
      with lower have "dots q ! j < Max (set (dots q))" by simp
      with eq show False by simp
    qed
  qed
  with lower show ?thesis
    by (simp add: maxDotIndex_bound resolver_eq maxDotIndex_Max)
qed

text \<open>
  C3, at a concrete input: for the die balanced on an edge, faces 1 and 5 tie at the maximum
  \<open>84/121\<close>; the resolver selects face 1, which is not above face 5, and face 0 before it
  is strictly below the maximum.
\<close>

theorem resolver_first_maximum_witness:
  "dots edgeQuat ! 1 = Max (set (dots edgeQuat)) \<and>
   dots edgeQuat ! 5 = Max (set (dots edgeQuat)) \<and>
   maxDotIndex edgeQuat = 1 \<and> maxDotIndex edgeQuat \<le> 5 \<and>
   dots edgeQuat ! 0 < Max (set (dots edgeQuat)) \<and>
   resolver edgeQuat = Some 6"
proof -
  have m: "Max (set (dots edgeQuat)) = 84 / 121"
    by (simp add: dots_edgeQuat)
  have five: "(5::nat) < 6 \<and> dots edgeQuat ! 5 = Max (set (dots edgeQuat))"
    by (simp add: m dots_edgeQuat)
  have zero: "(0::nat) < maxDotIndex edgeQuat"
    by (simp add: maxDotIndex_eval)
  show ?thesis
    using resolver_first_maximum [of edgeQuat] five zero
    by (simp add: maxDotIndex_eval m dots_edgeQuat faceMap_def)
qed

text \<open>
  C4, refuted as stated: at the unit quaternion \<open>(6/11, 0, -6/11, 7/11)\<close> two different
  faces, 1 and 5, attain the maximum dot product with world up.
\<close>

theorem two_faces_attain_maximum:
  "unit_quat edgeQuat \<and> attains_max edgeQuat 1 \<and> attains_max edgeQuat 5 \<and> (1::nat) \<noteq> 5"
proof -
  have "unit_quat edgeQuat"
    by (simp add: unit_quat_def edgeQuat_def Quat_def)
  moreover have "attains_max edgeQuat 1 \<and> attains_max edgeQuat 5"
    by (simp add: attains_max_def dots_edgeQuat)
  ultimately show ?thesis by simp
qed

text \<open>
  C4, amended. For every quaternion at least one of the six faces attains the maximum dot
  product with world up; the face the resolver selects attains it and is the first in the
  enumeration order to do so, and the returned symbol is that face's entry in the table.
  Whenever exactly one face attains the maximum, the returned symbol is the table entry of
  that unique face.
\<close>

theorem resolver_unique_maximum:
  "attains_max q (maxDotIndex q) \<and>
   resolver q = Some (faceMap ! maxDotIndex q) \<and>
   (\<forall>j. attains_max q j \<longrightarrow> maxDotIndex q \<le> j) \<and>
   (\<forall>i. attains_max q i \<and> (\<forall>j. attains_max q j \<longrightarrow> j = i)
        \<longrightarrow> resolver q = Some (faceMap ! i))"
proof -
  have sel: "attains_max q (maxDotIndex q)"
    by (simp add: attains_max_def length_dots maxDotIndex_bound maxDotIndex_Max)
  have first: "maxDotIndex q \<le> j" if "attains_max q j" for j
  proof (rule ccontr)
    assume "\<not> maxDotIndex q \<le> j"
    then have "j < maxDotIndex q" by simp
    then have "dots q ! j < dots q ! maxDotIndex q"
      using maxDotIndex_spec [of q] by simp
    moreover from that have "dots q ! j = dots q ! maxDotIndex q"
      by (simp add: attains_max_def maxDotIndex_Max)
    ultimately show False by simp
  qed
  have "resolver q = Some (faceMap ! i)"
    if "attains_max q i" and "\<forall>j. attains_max q j \<longrightarrow> j = i" for i
  proof -
    from that(2) sel have "maxDotIndex q = i" by blast
    then show ?thesis by (simp add: resolver_eq)
  qed
  with sel first show ?thesis by (simp add: resolver_eq)
qed

text \<open>
  C4 amended, at concrete inputs: under the identity orientation face 2 is the only face
  that attains the maximum, and the resolver returns its symbol, 2. For the die balanced on
  an edge, faces 1 and 5 attain the maximum and face 0 does not; the selected face is then
  face 1 and the symbol is 6.
\<close>

theorem resolver_unique_maximum_witness:
  "attains_max identityQuat 2 \<and>
   \<not> attains_max identityQuat 0 \<and> \<not> attains_max identityQuat 1 \<and>
   \<not> attains_max identityQuat 3 \<and> \<not> attains_max identityQuat 4 \<and>
   \<not> attains_max identityQuat 5 \<and>
   resolver identityQuat = Some 2 \<and>
   attains_max edgeQuat 1 \<and> attains_max edgeQuat 5 \<and> \<not> attains_max edgeQuat 0 \<and>
   resolver edgeQuat = Some 6"
proof -
  have m: "Max (set (dots identityQuat)) = 1"
    by (simp add: dots_identityQuat)
  have two: "attains_max identityQuat 2"
    by (simp add: attains_max_def m dots_identityQuat)
  have only: "\<forall>j. attains_max identityQuat j \<longrightarrow> j = 2"
  proof (intro allI impI)
    fix j assume "attains_max identityQuat j"
    then have lt: "j < 6" and eq: "dots identityQuat ! j = 1"
      by (simp_all add: attains_max_def length_dots m)
    from less_6_cases [OF lt] eq show "j = 2"
      by (elim disjE) (simp_all add: dots_identityQuat)
  qed
  have "resolver identityQuat = Some (faceMap ! 2)"
    by (rule resolver_unique_maximum [of identityQuat, THEN conjunct2, THEN conjunct2,
          THEN conjunct2, THEN spec, of 2, THEN mp]) (intro conjI two only)
  then have r: "resolver identityQuat = Some 2" by (simp add: faceMap_def)
  have others: "\<not> attains_max identityQuat 0" "\<not> attains_max identityQuat 1"
    "\<not> attains_max identityQuat 3" "\<not> attains_max identityQuat 4"
    "\<not> attains_max identityQuat 5"
    by (simp_all add: attains_max_def m dots_identityQuat)
  have e: "attains_max edgeQuat 1" "attains_max edgeQuat 5" "\<not> attains_max edgeQuat 0"
    by (simp_all add: attains_max_def dots_edgeQuat)
  note t = resolver_unique_maximum [of edgeQuat]
  from t have sel: "attains_max edgeQuat (maxDotIndex edgeQuat)" by (rule conjunct1)
  from t have res: "resolver edgeQuat = Some (faceMap ! maxDotIndex edgeQuat)"
    by (rule conjunct2 [THEN conjunct1])
  have le: "maxDotIndex edgeQuat \<le> 1"
    by (rule t [THEN conjunct2, THEN conjunct2, THEN conjunct1, THEN spec, of 1, THEN mp])
       (rule e(1))
  have "maxDotIndex edgeQuat \<noteq> 0"
  proof
    assume "maxDotIndex edgeQuat = 0"
    with sel e(3) show False by simp
  qed
  with le have "maxDotIndex edgeQuat = 1" by simp
  with res have r6: "resolver edgeQuat = Some 6" by (simp add: faceMap_def)
  show ?thesis by (intro conjI two others r e r6)
qed

text \<open>
  C6, refuted as stated: in double precision, composing the rotation by 0.1 rad about world
  up, the quaternion \<open>(0, sin 0.05, 0, cos 0.05)\<close>, with the edge-balanced orientation
  changes the symbol from 6 to 4. Both quaternions have unit length to within rounding. In
  exact arithmetic faces 1 and 5 tie before and after the yaw; the rounding of the products
  puts face 5 one unit in the last place above face 1.
\<close>

theorem yaw_changes_symbol_on_edge:
  "bounded_quat edgeQuatD \<and>
   \<bar>val (dqx edgeQuatD) * val (dqx edgeQuatD) + val (dqy edgeQuatD) * val (dqy edgeQuatD) +
     val (dqz edgeQuatD) * val (dqz edgeQuatD) + val (dqw edgeQuatD) * val (dqw edgeQuatD) - 1\<bar>
     \<le> 1 / 2 ^ 50 \<and>
   \<bar>val sinD * val sinD + val cosD * val cosD - 1\<bar> \<le> 1 / 2 ^ 50 \<and>
   resolverD edgeQuatD = Some 6 \<and>
   resolverD (multD (setFromAxisAngleD upVectorD sinD cosD) edgeQuatD) = Some 4"
proof -
  have "bounded_quat edgeQuatD"
    by (simp add: bounded_quat_def edgeQuatD_def QuatD_def pow2_def)
  moreover have
    "\<bar>val (dqx edgeQuatD) * val (dqx edgeQuatD) + val (dqy edgeQuatD) * val (dqy edgeQuatD) +
      val (dqz edgeQuatD) * val (dqz edgeQuatD) + val (dqw edgeQuatD) * val (dqw edgeQuatD) - 1\<bar>
      \<le> 1 / 2 ^ 50"
    by (simp add: edgeQuatD_def QuatD_def pow2_def)
  moreover have "\<bar>val sinD * val sinD + val cosD * val cosD - 1\<bar> \<le> 1 / 2 ^ 50"
    by (simp add: sinD_def cosD_def pow2_def)
  ultimately show ?thesis by (simp add: resolverD_values)
qed

text \<open>
  C6, amended. In double precision: for every orientation \<open>q\<close> whose components are finite
  and of magnitude at most 1, and every rotation about the world-up axis \<open>(0, 1, 0)\<close>, built
  by \<^verbatim>\<open>setFromAxisAngle\<close> from a sine \<open>s\<close> and a cosine \<open>c\<close> that are finite, of
  magnitude at most 1 and with \<open>s\<^sup>2 + c\<^sup>2\<close> within \<open>2\<^sup>-\<^sup>4\<^sup>0\<close> of 1, the resolver returns
  for the composition of the rotation with \<open>q\<close> the same symbol as for \<open>q\<close>, provided the
  dot product of the face selected for \<open>q\<close> exceeds each of the other five by at least
  \<open>2\<^sup>-\<^sup>2\<^sup>9\<close>.
\<close>

theorem resolverD_yaw_margin:
  assumes q: "bounded_quat q"
    and sc: "is_finite s" "is_finite c" "\<bar>val s\<bar> \<le> 1" "\<bar>val c\<bar> \<le> 1"
    and unit: "\<bar>val s * val s + val c * val c - 1\<bar> \<le> 1 / 2 ^ 40"
    and margin: "\<forall>j<6. j \<noteq> maxDotIndexD q \<longrightarrow>
                   val (dotsD q ! j) + 1 / 2 ^ 29 \<le> val (dotsD q ! maxDotIndexD q)"
  shows "resolverD (multD (setFromAxisAngleD upVectorD s c) q) = resolverD q"
proof -
  define Q where "Q = valQ q"
  define R where "R = \<lparr>qx = 0 * val s, qy = 1 * val s, qz = 0 * val s, qw = val c\<rparr>"
  define r where "r = setFromAxisAngleD upVectorD s c"
  define kap where "kap = val s * val s + val c * val c"
  define d where "d = 14925 * ulp + 576 / 2 ^ 40 + 14925 * ulp"
  have s1: "(0::real) < 1" "eta \<le> ulp * 1" "eta \<le> ulp * (1 * 1)" "(1::real) \<le> 2 ^ 980"
    "(1::real) * 1 \<le> 2 ^ 980"
    using eta_le_ulp by simp_all
  have bs: "box 1 1 0 s (val s)" and bc: "box 1 1 0 c (val c)"
    using sc by (simp_all add: box_def)
  have mul: "box 1 1 2 (dmul x u) (y * w)" if "box 1 1 0 x y" and "box 1 1 0 u w" for x y u w
    using box_mul_num [OF that, of 2] eta_le_ulp by (simp add: errMul_def ulp_def)
  have rr: "r = \<lparr>dqx = dmul (Fin 0 0) s, dqy = dmul (Fin 1 0) s, dqz = dmul (Fin 0 0) s, dqw = c\<rparr>"
    by (simp add: r_def setFromAxisAngleD_def upVectorD_def Vec3D_def)
  have "box 1 1 2 c (val c)" using box_weaken [OF bc, of 1 2] by simp
  then have rbox: "qbox 1 1 2 r R"
    unfolding rr R_def qbox_def
    using mul [OF box_consts(1) bs] mul [OF box_consts(2) bs] by simp
  have pbox: "qbox 1 4 33 (multD r q) (mult R Q)"
    unfolding Q_def by (rule multD_box [OF rbox bounded_quat_box0 [OF q]])
  have qbox: "qbox 1 4 33 q Q"
    unfolding Q_def by (rule bounded_quat_box [OF q])
  have dq: "box 1 576 14925 (dotsD q ! j) (dots Q ! j)" if "j < 6" for j
    using dotsD_box [OF qbox s1 that] by simp
  have dp: "box 1 576 14925 (dotsD (multD r q) ! j) (dots (mult R Q) ! j)" if "j < 6" for j
    using dotsD_box [OF pbox s1 that] by simp
  have ex: "dots (mult R Q) ! j = kap * dots Q ! j" if "j < 6" for j
  proof -
    have "dots (mult R Q) = map ((*) kap) (dots Q)"
      using dots_mult_yaw [of R Q] by (simp add: R_def kap_def)
    then show ?thesis using that by (simp add: length_dots)
  qed
  have fin: "list_all is_finite (dotsD q)" "list_all is_finite (dotsD (multD r q))"
    using dq dp by (simp_all add: list_all_length length_dotsD box_def)
  have dev: "\<forall>j<6. \<bar>val (dotsD (multD r q) ! j) - 1 * val (dotsD q ! j)\<bar> \<le> d"
  proof (intro allI impI)
    fix j :: nat assume j: "j < 6"
    define D where "D = dots Q ! j"
    from dq [OF j] have a: "\<bar>D\<bar> \<le> 576" and b: "\<bar>val (dotsD q ! j) - D\<bar> \<le> 14925 * ulp"
      by (simp_all add: box_def D_def)
    from dp [OF j] have c: "\<bar>val (dotsD (multD r q) ! j) - kap * D\<bar> \<le> 14925 * ulp"
      by (simp add: box_def ex [OF j] D_def)
    have "\<bar>kap * D - D\<bar> = \<bar>kap - 1\<bar> * \<bar>D\<bar>"
      by (simp add: abs_mult [symmetric] algebra_simps)
    also have "\<dots> \<le> (1 / 2 ^ 40) * 576"
      using unit a unfolding kap_def by (intro mult_mono) simp_all
    finally have e: "\<bar>kap * D - D\<bar> \<le> 576 / 2 ^ 40" by simp
    from b c e show "\<bar>val (dotsD (multD r q) ! j) - 1 * val (dotsD q ! j)\<bar> \<le> d"
      unfolding d_def by linarith
  qed
  have d2: "2 * d < 1 / 2 ^ 29" by (simp add: d_def ulp_def)
  have mar: "\<forall>j<6. j \<noteq> maxDotIndexD q \<longrightarrow>
               1 * val (dotsD q ! j) + 2 * d < 1 * val (dotsD q ! maxDotIndexD q)"
  proof (intro allI impI)
    fix j :: nat assume "j < 6" and "j \<noteq> maxDotIndexD q"
    with margin have "val (dotsD q ! j) + 1 / 2 ^ 29 \<le> val (dotsD q ! maxDotIndexD q)" by simp
    with d2 show "1 * val (dotsD q ! j) + 2 * d < 1 * val (dotsD q ! maxDotIndexD q)"
      by linarith
  qed
  from resolverD_margin [OF fin zero_less_one dev mar]
  show ?thesis by (simp add: r_def)
qed

text \<open>
  C6 amended, at a concrete input: the die with local \<open>-Z\<close> up has face 5 leading by 1;
  after the yaw by 0.1 rad the resolver still returns symbol 4.
\<close>

theorem resolverD_yaw_margin_witness:
  "bounded_quat zDownQuatD \<and> maxDotIndexD zDownQuatD = 5 \<and>
   resolverD zDownQuatD = Some 4 \<and>
   resolverD (multD (setFromAxisAngleD upVectorD sinD cosD) zDownQuatD) = Some 4"
proof -
  have b: "bounded_quat zDownQuatD"
    by (simp add: bounded_quat_def zDownQuatD_def QuatD_def pow2_def)
  have sc: "is_finite sinD" "is_finite cosD" "\<bar>val sinD\<bar> \<le> 1" "\<bar>val cosD\<bar> \<le> 1"
    by (simp_all add: sinD_def cosD_def pow2_def)
  have u: "\<bar>val sinD * val sinD + val cosD * val cosD - 1\<bar> \<le> 1 / 2 ^ 40"
    by (simp add: sinD_def cosD_def pow2_def)
  have i: "maxDotIndexD zDownQuatD = 5"
    by (simp add: maxDotIndexD_def dotsD_zDownQuatD maxDotLoopD.simps elemAt_def)
  have m: "\<forall>j<6. j \<noteq> maxDotIndexD zDownQuatD \<longrightarrow>
             val (dotsD zDownQuatD ! j) + 1 / 2 ^ 29
               \<le> val (dotsD zDownQuatD ! maxDotIndexD zDownQuatD)"
    unfolding i by (simp add: all_less_6 dotsD_zDownQuatD pow2_def)
  have "resolverD (multD (setFromAxisAngleD upVectorD sinD cosD) zDownQuatD)
        = resolverD zDownQuatD"
    by (rule resolverD_yaw_margin [OF b sc u m])
  then show ?thesis using b i by (simp add: resolverD_values)
qed

text \<open>
  C8. The resolver is total: for every quaternion the index it computes lies within the
  face-to-symbol table, so the table read is defined, and the symbol read is an integer
  from 1 to 6.
\<close>

theorem resolver_total:
  "maxDotIndex q < length faceMap \<and> (\<exists>v. resolver q = Some v \<and> 1 \<le> v \<and> v \<le> 6)"
proof -
  have "maxDotIndex q < length faceMap"
    using maxDotIndex_bound [of q] by (simp add: faceMap_def)
  moreover have "1 \<le> faceMap ! maxDotIndex q \<and> faceMap ! maxDotIndex q \<le> 6"
    using faceMap_range [OF maxDotIndex_bound] .
  ultimately show ?thesis by (simp add: resolver_eq)
qed

text \<open>
  C9, refuted as stated: in double precision, multiplying the unit quaternion with local
  \<open>-Z\<close> up by the positive scalar \<open>2\<^sup>-\<^sup>6\<^sup>0\<^sup>0\<close> changes the symbol from 4 to 1: every
  product of two components underflows to 0, the six dot products are all 0 and the loop
  keeps index 0.
\<close>

theorem tiny_scale_changes_symbol:
  "bounded_quat zDownQuatD \<and> is_finite tinyD \<and> 0 < val tinyD \<and>
   resolverD zDownQuatD = Some 4 \<and>
   resolverD (scaleQuatD tinyD zDownQuatD) = Some 1"
proof -
  have "bounded_quat zDownQuatD"
    by (simp add: bounded_quat_def zDownQuatD_def QuatD_def pow2_def)
  moreover have "is_finite tinyD" "0 < val tinyD"
    by (simp_all add: tinyD_def pow2_def)
  ultimately show ?thesis by (simp add: resolverD_values)
qed

text \<open>
  C9, amended. In double precision: for every quaternion \<open>q\<close> whose components are finite
  and of magnitude at most 1 and every finite scalar \<open>c\<close> with
  \<open>2\<^sup>-\<^sup>5\<^sup>0\<^sup>0 \<le> c \<le> 2\<^sup>4\<^sup>9\<^sup>0\<close>, the resolver returns the same symbol for \<open>c q\<close> as for
  \<open>q\<close>, provided the dot product of the face selected for \<open>q\<close> exceeds each of the other
  five by at least \<open>2\<^sup>-\<^sup>2\<^sup>9\<close>.
\<close>

theorem resolverD_scale_margin:
  assumes q: "bounded_quat q"
    and c: "is_finite c" "1 / 2 ^ 500 \<le> val c" "val c \<le> 2 ^ 490"
    and margin: "\<forall>j<6. j \<noteq> maxDotIndexD q \<longrightarrow>
                   val (dotsD q ! j) + 1 / 2 ^ 29 \<le> val (dotsD q ! maxDotIndexD q)"
  shows "resolverD (scaleQuatD c q) = resolverD q"
proof -
  define Q where "Q = valQ q"
  define s where "s = val c"
  define K where "K = s * s"
  define d where "d = 2 * (14925 * ulp) * K"
  have spos: "0 < s" using c(2) unfolding s_def by (rule less_le_trans [rotated]) simp
  have Kpos: "0 < K" using spos by (simp add: K_def)
  have slo: "1 / 2 ^ 500 \<le> s" and shi: "s \<le> 2 ^ 490" using c by (simp_all add: s_def)
  have Klo: "1 / 2 ^ 1000 \<le> K"
  proof -
    have "(1 / 2 ^ 500) * (1 / 2 ^ 500) \<le> s * s"
      using slo by (intro mult_mono) simp_all
    then show ?thesis by (simp add: K_def)
  qed
  have Khi: "K \<le> 2 ^ 980"
  proof -
    have "s * s \<le> 2 ^ 490 * 2 ^ 490"
      using shi spos by (intro mult_mono) simp_all
    then show ?thesis by (simp add: K_def)
  qed
  have e1: "eta \<le> ulp * s"
  proof -
    have "ulp * (1 / 2 ^ 500) \<le> ulp * s"
      using slo by (intro mult_left_mono) (simp_all add: ulp_def)
    moreover have "eta \<le> ulp * (1 / 2 ^ 500)" by (simp add: eta_def ulp_def)
    ultimately show ?thesis by linarith
  qed
  have e2: "eta \<le> ulp * K"
  proof -
    have "ulp * (1 / 2 ^ 1000) \<le> ulp * K"
      using Klo by (intro mult_left_mono) (simp_all add: ulp_def)
    moreover have "eta \<le> ulp * (1 / 2 ^ 1000)" by (simp add: eta_def ulp_def)
    ultimately show ?thesis by linarith
  qed
  have s980: "s \<le> 2 ^ 980" using shi by (rule order_trans) simp
  have sc: "0 < s" "eta \<le> ulp * s" "eta \<le> ulp * (s * s)" "s \<le> 2 ^ 980" "s * s \<le> 2 ^ 980"
    using spos e1 e2 s980 Khi by (simp_all add: K_def)
  have s1: "(0::real) < 1" "eta \<le> ulp * 1" "eta \<le> ulp * (1 * 1)" "(1::real) \<le> 2 ^ 980"
    "(1::real) * 1 \<le> 2 ^ 980"
    using eta_le_ulp by simp_all
  have bc: "box s 1 0 c (val c)"
    using c(1) spos by (simp add: box_def s_def)
  have mul: "box s 1 2 (dmul c u) (val c * w)" if "box 1 1 0 u w" for u w
    using box_mul_num [OF bc that, of 2] spos e1 s980 by (simp add: errMul_def ulp_def)
  have q0: "qbox 1 1 0 q Q" unfolding Q_def by (rule bounded_quat_box0 [OF q])
  have "qbox s 1 2 (scaleQuatD c q) (scaleQuat s Q)"
    using q0 unfolding qbox_def scaleQuatD_def scaleQuat_def s_def
    by (simp add: mul [unfolded s_def])
  then have sbox: "qbox s 4 33 (scaleQuatD c q) (scaleQuat s Q)"
    using qbox_weaken [of s 1 2 _ _ 4 33] spos by simp
  have qbox: "qbox 1 4 33 q Q"
    unfolding Q_def by (rule bounded_quat_box [OF q])
  have dq: "box 1 576 14925 (dotsD q ! j) (dots Q ! j)" if "j < 6" for j
    using dotsD_box [OF qbox s1 that] by simp
  have dp: "box K 576 14925 (dotsD (scaleQuatD c q) ! j) (K * dots Q ! j)" if "j < 6" for j
    using dotsD_box [OF sbox sc that] that by (simp add: dots_scaleQuat length_dots K_def)
  have fin: "list_all is_finite (dotsD q)" "list_all is_finite (dotsD (scaleQuatD c q))"
    using dq dp by (simp_all add: list_all_length length_dotsD box_def)
  have dev: "\<forall>j<6. \<bar>val (dotsD (scaleQuatD c q) ! j) - K * val (dotsD q ! j)\<bar> \<le> d"
  proof (intro allI impI)
    fix j :: nat assume j: "j < 6"
    define D where "D = dots Q ! j"
    define x where "x = val (dotsD q ! j)"
    from dq [OF j] have b: "\<bar>x - D\<bar> \<le> 14925 * ulp"
      by (simp add: box_def D_def x_def)
    from dp [OF j] have a: "\<bar>val (dotsD (scaleQuatD c q) ! j) - K * D\<bar> \<le> 14925 * ulp * K"
      by (simp add: box_def D_def)
    have "K * D - K * x = K * (D - x)" by (simp add: algebra_simps)
    then have "\<bar>K * D - K * x\<bar> = \<bar>K\<bar> * \<bar>D - x\<bar>" by (simp only: abs_mult)
    also have "\<dots> = K * \<bar>x - D\<bar>"
      using Kpos by (simp add: abs_minus_commute)
    also have "\<dots> \<le> K * (14925 * ulp)"
      using b Kpos by (intro mult_left_mono) simp_all
    finally have e: "\<bar>K * D - K * x\<bar> \<le> 14925 * ulp * K" by (simp add: algebra_simps)
    from a e show "\<bar>val (dotsD (scaleQuatD c q) ! j) - K * val (dotsD q ! j)\<bar> \<le> d"
      unfolding d_def x_def [symmetric] by linarith
  qed
  have mar: "\<forall>j<6. j \<noteq> maxDotIndexD q \<longrightarrow>
               K * val (dotsD q ! j) + 2 * d < K * val (dotsD q ! maxDotIndexD q)"
  proof (intro allI impI)
    fix j :: nat assume "j < 6" and "j \<noteq> maxDotIndexD q"
    with margin have m: "val (dotsD q ! j) + 1 / 2 ^ 29 \<le> val (dotsD q ! maxDotIndexD q)"
      by simp
    have "K * (val (dotsD q ! j) + 1 / 2 ^ 29) \<le> K * val (dotsD q ! maxDotIndexD q)"
      using m Kpos by (intro mult_left_mono) simp_all
    moreover have "2 * d < K * (1 / 2 ^ 29)"
      using Kpos by (simp add: d_def ulp_def)
    ultimately show "K * val (dotsD q ! j) + 2 * d < K * val (dotsD q ! maxDotIndexD q)"
      by (simp add: algebra_simps)
  qed
  from resolverD_margin [OF fin Kpos dev mar]
  show ?thesis .
qed

text \<open>
  C9 amended, at a concrete input: the die with local \<open>-Z\<close> up, scaled by the double
  nearest to one tenth, still resolves to symbol 4.
\<close>

theorem resolverD_scale_margin_witness:
  "bounded_quat zDownQuatD \<and> is_finite tenthD \<and>
   1 / 2 ^ 500 \<le> val tenthD \<and> val tenthD \<le> 2 ^ 490 \<and>
   resolverD (scaleQuatD tenthD zDownQuatD) = Some 4"
proof -
  have b: "bounded_quat zDownQuatD"
    by (simp add: bounded_quat_def zDownQuatD_def QuatD_def pow2_def)
  have c: "is_finite tenthD" "1 / 2 ^ 500 \<le> val tenthD" "val tenthD \<le> 2 ^ 490"
    by (simp_all add: tenthD_def pow2_def)
  have i: "maxDotIndexD zDownQuatD = 5"
    by (simp add: maxDotIndexD_def dotsD_zDownQuatD maxDotLoopD.simps elemAt_def)
  have m: "\<forall>j<6. j \<noteq> maxDotIndexD zDownQuatD \<longrightarrow>
             val (dotsD zDownQuatD ! j) + 1 / 2 ^ 29
               \<le> val (dotsD zDownQuatD ! maxDotIndexD zDownQuatD)"
    unfolding i by (simp add: all_less_6 dotsD_zDownQuatD pow2_def)
  have "resolverD (scaleQuatD tenthD zDownQuatD) = resolverD zDownQuatD"
    by (rule resolverD_scale_margin [OF b c m])
  then show ?thesis using b c by (simp add: resolverD_values)
qed


section \<open>Properties of the handlers\<close>

text \<open>
  C5, refuted as stated: in the state with the bowl open, one trigger of the shake (the
  button's handler, or \<^verbatim>\<open>handleShake\<close> itself) leaves the game in the phase
  \<open>Idle\<close>, not in \<open>Shaking\<close>; no settle timer is scheduled and the dice are not moved.
\<close>

theorem shake_from_open_not_shaking:
  "phase openGame = Open \<and>
   phase (handleMainButton coin openGame) = Idle \<and>
   phase (handleMainButton coin openGame) \<noteq> Shaking \<and>
   phase (handleShake coin openGame) \<noteq> Shaking \<and>
   timers (handleMainButton coin openGame) = [] \<and>
   diceBodies (handleMainButton coin openGame) = diceBodies openGame"
  by (simp add: phase_def handleMainButton_def handleShake_def openGame_def)

text \<open>
  C5, amended. When the game is in the Open phase and the physics world exists, a shake
  trigger closes the bowl: the game goes to the Idle phase and the previous round result is
  cleared, nothing else changes, and it is the next trigger that takes the game to the
  Shaking phase.
\<close>

theorem shake_from_open_resets:
  assumes "phase s = Open" and "worldReady s"
  shows "handleMainButton rnd s = s\<lparr>isBowlOpen := False, isReadyToOpen := False, results := []\<rparr> \<and>
         handleShake rnd s = handleMainButton rnd s \<and>
         phase (handleMainButton rnd s) = Idle \<and>
         results (handleMainButton rnd s) = [] \<and>
         phase (handleMainButton rnd' (handleMainButton rnd s)) = Shaking"
proof -
  from assms(1) have f: "\<not> isShaking s" "isBowlOpen s"
    by (simp_all add: phase_def split: if_splits)
  let ?t = "s\<lparr>isBowlOpen := False, isReadyToOpen := False, results := []\<rparr>"
  have hs: "handleShake rnd s = ?t"
    using f assms(2) by (simp add: handleShake_def)
  have hm: "handleMainButton rnd s = ?t"
    using f hs by (simp add: handleMainButton_def)
  have t: "\<not> isShaking ?t" "\<not> isBowlOpen ?t" "\<not> isReadyToOpen ?t" "worldReady ?t"
    using f assms(2) by simp_all
  have sh: "isShaking (handleShake rnd' ?t)"
    using t by (simp add: handleShake_def Let_def playShakeSound_def setupAudio_def)
  have hm2: "handleMainButton rnd' ?t = handleShake rnd' ?t"
    using t by (simp add: handleMainButton_def)
  have p1: "phase ?t = Idle"
    using f by (simp add: phase_def)
  have p2: "results ?t = []"
    by simp
  have p3: "phase (handleMainButton rnd' ?t) = Shaking"
    unfolding hm2 using sh by (simp add: phase_def)
  show ?thesis
    unfolding hs hm by (intro conjI refl p1 p2 p3)
qed

text \<open>
  C5 amended, at a concrete input: from the state with the bowl open and the result
  (2, 2, 2), the first trigger gives Idle with an empty result, the second gives Shaking.
\<close>

theorem shake_from_open_resets_witness:
  "phase openGame = Open \<and> worldReady openGame \<and> results openGame = [Some 2, Some 2, Some 2] \<and>
   phase (handleMainButton coin openGame) = Idle \<and>
   results (handleMainButton coin openGame) = [] \<and>
   phase (handleMainButton coin (handleMainButton coin openGame)) = Shaking"
proof -
  have h: "phase openGame = Open" "worldReady openGame"
    by (simp_all add: phase_def openGame_def)
  have r: "results openGame = [Some 2, Some 2, Some 2]"
    by (simp add: openGame_def)
  note t = shake_from_open_resets [OF h, of coin coin]
  from t have a: "phase (handleMainButton coin openGame) = Idle" by blast
  from t have b: "results (handleMainButton coin openGame) = []" by blast
  from t have c: "phase (handleMainButton coin (handleMainButton coin openGame)) = Shaking"
    by blast
  show ?thesis
    by (intro conjI h r a b c)
qed

text \<open>
  C7. A shake request issued while the game is shaking is a no-op: \<^verbatim>\<open>handleShake\<close> and
  the button's handler both return the state as it was, so the phase, the round result, the
  dice bodies and the pending timers are unchanged.
\<close>

theorem shake_while_shaking_noop:
  assumes "isShaking s"
  shows "handleShake rnd s = s \<and> handleMainButton rnd s = s \<and>
         phase (handleShake rnd s) = Shaking \<and>
         results (handleShake rnd s) = results s \<and>
         diceBodies (handleShake rnd s) = diceBodies s"
  using assms by (simp add: handleShake_def handleMainButton_def phase_def)

text \<open>
  C7, at a concrete input: the state reached by one shake from the initial state is
  shaking, and a second shake request leaves it as it is.
\<close>

theorem shake_while_shaking_noop_witness:
  "isShaking (handleShake coin initialGame) \<and>
   handleShake coin (handleShake coin initialGame) = handleShake coin initialGame \<and>
   handleMainButton coin (handleShake coin initialGame) = handleShake coin initialGame"
proof -
  have h: "isShaking (handleShake coin initialGame)"
    by (simp add: handleShake_def initialGame_def Let_def playShakeSound_def setupAudio_def)
  show ?thesis
    using shake_while_shaking_noop [OF h, of coin] h by simp
qed

text \<open>
  C10. An open request issued when the game is not ready to open, or when the bowl is
  already open, is a no-op: \<^verbatim>\<open>openBowl\<close> returns the state as it was, so no reveal
  timer is added and the phase and the round result are unchanged.
\<close>

theorem openBowl_guard_noop:
  assumes "\<not> isReadyToOpen s \<or> isBowlOpen s"
  shows "openBowl s = s \<and> timers (openBowl s) = timers s \<and>
         phase (openBowl s) = phase s \<and> results (openBowl s) = results s"
  using assms by (auto simp: openBowl_def)

text \<open>
  C10, at concrete inputs: the initial state is not ready to open, the state with the bowl
  open is already open; \<^verbatim>\<open>openBowl\<close> changes neither.
\<close>

theorem openBowl_guard_noop_witness:
  "\<not> isReadyToOpen initialGame \<and> openBowl initialGame = initialGame \<and>
   isBowlOpen openGame \<and> openBowl openGame = openGame"
proof -
  have a: "\<not> isReadyToOpen initialGame \<or> isBowlOpen initialGame"
    by (simp add: initialGame_def)
  have b: "\<not> isReadyToOpen openGame \<or> isBowlOpen openGame"
    by (simp add: openGame_def)
  have c: "\<not> isReadyToOpen initialGame" "isBowlOpen openGame"
    by (simp_all add: initialGame_def openGame_def)
  show ?thesis
    using openBowl_guard_noop [OF a] openBowl_guard_noop [OF b] c by simp
qed

end
